theory Spec2Isabelle
  imports
    Complex_Main
    "HOL-Library.Multiset"
    "HOL-Library.Char_ord"
    "HOL-Library.List_Lexorder"
    "HOL-Library.Product_Lexorder"
    "HOL-Library.Log_Nat"
begin

section \<open>Data model (shared/schema.ts)\<close>

text \<open>
  The three tables of \<^verbatim>\<open>shared/schema.ts\<close>. Every \<^verbatim>\<open>integer\<close> column is an \<open>int\<close>
  (the 32-bit range of the column type is not modelled), every \<^verbatim>\<open>text\<close>/\<^verbatim>\<open>varchar\<close>
  column a \<open>string\<close> compared bytewise, a nullable column an \<open>option\<close>. A \<^verbatim>\<open>date\<close> is
  the triple (year, month, day) under the lexicographic order, which is the
  chronological one; a \<^verbatim>\<open>timestamp\<close> is a number of clock ticks.
  Field names carry the table as a prefix because record fields share one name space.
\<close>

type_synonym date = "nat \<times> nat \<times> nat"
type_synonym timestamp = nat

text \<open>\<^verbatim>\<open>attendanceStatusValues\<close>: "present", "absent", "late", "excused".\<close>

datatype AttendanceStatus = Present | Absent | Late | Excused

record Student =
  stu_id :: int
  stu_studentId :: string
  stu_firstName :: string
  stu_lastName :: string
  stu_email :: string
  stu_photoUrl :: "string option"

record Session =
  ses_id :: int
  ses_name :: string
  ses_date :: date
  ses_createdAt :: timestamp

record AttendanceRecord =
  att_id :: int
  att_studentId :: int
  att_sessionId :: int
  att_status :: AttendanceStatus
  att_notes :: "string option"
  att_recordedAt :: timestamp

text \<open>\<^verbatim>\<open>InsertStudent\<close> and \<^verbatim>\<open>InsertAttendanceRecord\<close>: the row without the generated columns.\<close>

record InsertStudent =
  new_studentId :: string
  new_firstName :: string
  new_lastName :: string
  new_email :: string
  new_photoUrl :: "string option"

record InsertAttendanceRecord =
  ins_studentId :: int
  ins_sessionId :: int
  ins_status :: AttendanceStatus
  ins_notes :: "string option"

section \<open>The database behind \<^verbatim>\<open>db\<close> (server/storage.ts)\<close>

text \<open>
  The state of the PostgreSQL database: each table is the list of its rows in storage
  order, and each \<^verbatim>\<open>generatedAlwaysAsIdentity\<close> column has the next value of its sequence.
  Every \<^verbatim>\<open>await db...\<close> is one statement that commits on its own; the storage layer opens
  no transaction.
\<close>

record db =
  students :: "Student list"
  sessions :: "Session list"
  attendanceRecords :: "AttendanceRecord list"
  students_seq :: int
  sessions_seq :: int
  attendanceRecords_seq :: int

text \<open>
  What a statement can throw: the constraint violations of the schema (\<^verbatim>\<open>unique\<close>,
  \<^verbatim>\<open>references\<close>, \<^verbatim>\<open>varchar length 50\<close>), and the error of the query builder when
  \<^verbatim>\<open>update(...).set(...)\<close> receives no column.
\<close>

datatype storage_error =
  UniqueViolation | ForeignKeyViolation | StringTooLong | NoValuesToSet

subsection \<open>Attendance: insert and bulk replace\<close>

definition fk_ok :: "db \<Rightarrow> InsertAttendanceRecord \<Rightarrow> bool" where
  "fk_ok s r \<longleftrightarrow>
     ins_studentId r \<in> set (map stu_id (students s)) \<and>
     ins_sessionId r \<in> set (map ses_id (sessions s))"

definition new_row :: "timestamp \<Rightarrow> int \<Rightarrow> InsertAttendanceRecord \<Rightarrow> AttendanceRecord" where
  "new_row now i r =
     \<lparr>att_id = i, att_studentId = ins_studentId r, att_sessionId = ins_sessionId r,
      att_status = ins_status r, att_notes = ins_notes r, att_recordedAt = now\<rparr>"

fun new_rows :: "timestamp \<Rightarrow> int \<Rightarrow> InsertAttendanceRecord list \<Rightarrow> AttendanceRecord list" where
  "new_rows now i [] = []"
| "new_rows now i (r # rs) = new_row now i r # new_rows now (i + 1) rs"

text \<open>
  \<^verbatim>\<open>db.insert(attendanceRecords).values(records).returning()\<close>: one INSERT statement. Each
  row takes the next identity value and \<^verbatim>\<open>defaultNow()\<close>; the foreign keys are checked for
  every row, and one failing row makes the whole statement fail with no row inserted
  (the identity values it drew stay consumed).
\<close>

definition insert_attendanceRecords ::
  "timestamp \<Rightarrow> InsertAttendanceRecord list \<Rightarrow> db \<Rightarrow> (storage_error + AttendanceRecord list) \<times> db" where
  "insert_attendanceRecords now records s =
     (let rows = new_rows now (attendanceRecords_seq s) records;
          s1 = s\<lparr>attendanceRecords_seq := attendanceRecords_seq s + int (length records)\<rparr>
      in if list_all (fk_ok s) records
         then (Inr rows, s1\<lparr>attendanceRecords := attendanceRecords s @ rows\<rparr>)
         else (Inl ForeignKeyViolation, s1))"

text \<open>\<^verbatim>\<open>db.delete(attendanceRecords).where(eq(attendanceRecords.sessionId, sessionId))\<close>.\<close>

definition delete_attendance_of_session :: "int \<Rightarrow> db \<Rightarrow> db" where
  "delete_attendance_of_session sessionId s =
     s\<lparr>attendanceRecords := filter (\<lambda>a. att_sessionId a \<noteq> sessionId) (attendanceRecords s)\<rparr>"

text \<open>
  \<^verbatim>\<open>createBulkAttendance\<close> (storage.ts 119-129): the empty batch returns at once; otherwise
  the DELETE runs, then the INSERT. An INSERT that throws leaves the DELETE done.
\<close>

definition createBulkAttendance ::
  "timestamp \<Rightarrow> InsertAttendanceRecord list \<Rightarrow> db \<Rightarrow> (storage_error + AttendanceRecord list) \<times> db" where
  "createBulkAttendance now records s =
     (case records of
        [] \<Rightarrow> (Inr [], s)
      | r0 # _ \<Rightarrow>
          let sessionId = ins_sessionId r0
          in insert_attendanceRecords now records (delete_attendance_of_session sessionId s))"

text \<open>\<^verbatim>\<open>getAttendanceBySession\<close> (storage.ts 107-112).\<close>

definition getAttendanceBySession :: "int \<Rightarrow> db \<Rightarrow> AttendanceRecord list" where
  "getAttendanceBySession sessionId s =
     filter (\<lambda>a. att_sessionId a = sessionId) (attendanceRecords s)"

text \<open>
  The columns of a row that the caller supplied, and all columns but the surrogate id.
\<close>

definition insert_fields :: "AttendanceRecord \<Rightarrow> InsertAttendanceRecord" where
  "insert_fields a =
     \<lparr>ins_studentId = att_studentId a, ins_sessionId = att_sessionId a,
      ins_status = att_status a, ins_notes = att_notes a\<rparr>"

definition fields_except_id :: "AttendanceRecord \<Rightarrow> InsertAttendanceRecord \<times> timestamp" where
  "fields_except_id a = (insert_fields a, att_recordedAt a)"

subsection \<open>ORDER BY\<close>

text \<open>
  \<^verbatim>\<open>orderBy\<close> as a stable insertion sort under the comparison of the sort keys: rows with
  equal keys stay in storage order (SQL leaves their order open).
\<close>

fun insert_by :: "('a \<Rightarrow> 'a \<Rightarrow> bool) \<Rightarrow> 'a \<Rightarrow> 'a list \<Rightarrow> 'a list" where
  "insert_by le x [] = [x]"
| "insert_by le x (y # ys) = (if le x y then x # y # ys else y # insert_by le x ys)"

definition order_by :: "('a \<Rightarrow> 'a \<Rightarrow> bool) \<Rightarrow> 'a list \<Rightarrow> 'a list" where
  "order_by le xs = foldr (insert_by le) xs []"

subsection \<open>Students\<close>

text \<open>\<^verbatim>\<open>getStudents\<close> (storage.ts 43-45): ordered by (lastName, firstName).\<close>

definition by_lastName_firstName :: "Student \<Rightarrow> Student \<Rightarrow> bool" where
  "by_lastName_firstName a b \<longleftrightarrow>
     (stu_lastName a, stu_firstName a) \<le> (stu_lastName b, stu_firstName b)"

definition getStudents :: "db \<Rightarrow> Student list" where
  "getStudents s = order_by by_lastName_firstName (students s)"

definition getStudent :: "int \<Rightarrow> db \<Rightarrow> Student option" where
  "getStudent id' s = find (\<lambda>x. stu_id x = id') (students s)"

text \<open>
  \<^verbatim>\<open>createStudent\<close> (storage.ts 52-55): an INSERT of one row. The row takes the next identity
  value; \<^verbatim>\<open>varchar("student_id", { length: 50 })\<close> rejects a longer value and \<^verbatim>\<open>unique()\<close> a
  value that another row has.
\<close>

definition student_row :: "int \<Rightarrow> InsertStudent \<Rightarrow> Student" where
  "student_row i v =
     \<lparr>stu_id = i, stu_studentId = new_studentId v, stu_firstName = new_firstName v,
      stu_lastName = new_lastName v, stu_email = new_email v, stu_photoUrl = new_photoUrl v\<rparr>"

definition createStudent :: "InsertStudent \<Rightarrow> db \<Rightarrow> (storage_error + Student) \<times> db" where
  "createStudent student s =
     (let newStudent = student_row (students_seq s) student;
          s1 = s\<lparr>students_seq := students_seq s + 1\<rparr>
      in if 50 < length (new_studentId student) then (Inl StringTooLong, s1)
         else if new_studentId student \<in> set (map stu_studentId (students s))
         then (Inl UniqueViolation, s1)
         else (Inr newStudent, s1\<lparr>students := students s @ [newStudent]\<rparr>))"

text \<open>
  \<^verbatim>\<open>Partial<InsertStudent>\<close>: each key is absent (\<open>None\<close>) or carries a value; the nullable
  \<^verbatim>\<open>photoUrl\<close> can carry \<^verbatim>\<open>null\<close>.
\<close>

record StudentPatch =
  set_studentId :: "string option"
  set_firstName :: "string option"
  set_lastName :: "string option"
  set_email :: "string option"
  set_photoUrl :: "string option option"

definition no_values :: "StudentPatch \<Rightarrow> bool" where
  "no_values p \<longleftrightarrow>
     set_studentId p = None \<and> set_firstName p = None \<and> set_lastName p = None \<and>
     set_email p = None \<and> set_photoUrl p = None"

definition apply_patch :: "StudentPatch \<Rightarrow> Student \<Rightarrow> Student" where
  "apply_patch p x =
     x\<lparr>stu_studentId := (case set_studentId p of None \<Rightarrow> stu_studentId x | Some v \<Rightarrow> v),
       stu_firstName := (case set_firstName p of None \<Rightarrow> stu_firstName x | Some v \<Rightarrow> v),
       stu_lastName := (case set_lastName p of None \<Rightarrow> stu_lastName x | Some v \<Rightarrow> v),
       stu_email := (case set_email p of None \<Rightarrow> stu_email x | Some v \<Rightarrow> v),
       stu_photoUrl := (case set_photoUrl p of None \<Rightarrow> stu_photoUrl x | Some v \<Rightarrow> v)\<rparr>"

text \<open>
  \<^verbatim>\<open>updateStudent\<close> (storage.ts 57-64): \<^verbatim>\<open>db.update(students).set(student).where(...)\<close>.
  The query builder's \<^verbatim>\<open>set\<close> throws (\<^verbatim>\<open>No values to set\<close>) when the object has no defined key,
  before any statement reaches the database. Otherwise the UPDATE writes the given columns
  of the row with that id, under the same constraints as the INSERT, and returns it; with
  no such row it returns nothing.
\<close>

definition updateStudent ::
  "int \<Rightarrow> StudentPatch \<Rightarrow> db \<Rightarrow> (storage_error + Student option) \<times> db" where
  "updateStudent id' student s =
     (if no_values student then (Inl NoValuesToSet, s)
      else case find (\<lambda>x. stu_id x = id') (students s) of
        None \<Rightarrow> (Inr None, s)
      | Some old \<Rightarrow>
          let updated = apply_patch student old
          in if 50 < length (stu_studentId updated) then (Inl StringTooLong, s)
             else if stu_studentId updated \<in>
                     set (map stu_studentId (filter (\<lambda>x. stu_id x \<noteq> id') (students s)))
             then (Inl UniqueViolation, s)
             else (Inr (Some updated),
                   s\<lparr>students :=
                       map (\<lambda>x. if stu_id x = id' then apply_patch student x else x) (students s)\<rparr>))"

text \<open>
  \<^verbatim>\<open>deleteStudent\<close> (storage.ts 66-69): the DELETE returns the removed rows; the foreign key
  \<^verbatim>\<open>references(() => students.id, { onDelete: "cascade" })\<close> removes with a student the
  attendance records that reference it.
\<close>

definition deleteStudent :: "int \<Rightarrow> db \<Rightarrow> bool \<times> db" where
  "deleteStudent id' s =
     (let result = filter (\<lambda>x. stu_id x = id') (students s)
      in (0 < length result,
          s\<lparr>students := filter (\<lambda>x. stu_id x \<noteq> id') (students s),
            attendanceRecords :=
              (if result = [] then attendanceRecords s
               else filter (\<lambda>a. att_studentId a \<noteq> id') (attendanceRecords s))\<rparr>))"

subsection \<open>Joined attendance records\<close>

text \<open>\<^verbatim>\<open>AttendanceRecordWithStudent = AttendanceRecord & { student; session }\<close>.\<close>

record AttendanceRecordWithStudent = AttendanceRecord +
  student :: Student
  session :: Session

definition with_refs :: "AttendanceRecord \<Rightarrow> Student \<Rightarrow> Session \<Rightarrow> AttendanceRecordWithStudent" where
  "with_refs a st se =
     \<lparr>att_id = att_id a, att_studentId = att_studentId a, att_sessionId = att_sessionId a,
      att_status = att_status a, att_notes = att_notes a, att_recordedAt = att_recordedAt a,
      student = st, session = se\<rparr>"

text \<open>\<^verbatim>\<open>orderBy(desc(sessions.date), students.lastName)\<close>.\<close>

definition by_date_desc_lastName ::
  "AttendanceRecordWithStudent \<Rightarrow> AttendanceRecordWithStudent \<Rightarrow> bool" where
  "by_date_desc_lastName x y \<longleftrightarrow>
     ses_date (session y) < ses_date (session x) \<or>
     ses_date (session x) = ses_date (session y) \<and>
       stu_lastName (student x) \<le> stu_lastName (student y)"

text \<open>
  \<^verbatim>\<open>getAttendanceRecords\<close> (storage.ts 87-105): the two inner joins pair every attendance
  record with each student row and each session row that its foreign keys match.
\<close>

definition attendance_join :: "db \<Rightarrow> AttendanceRecordWithStudent list" where
  "attendance_join s =
     [with_refs a st se.
        a \<leftarrow> attendanceRecords s,
        st \<leftarrow> students s, att_studentId a = stu_id st,
        se \<leftarrow> sessions s, att_sessionId a = ses_id se]"

definition getAttendanceRecords :: "db \<Rightarrow> AttendanceRecordWithStudent list" where
  "getAttendanceRecords s = order_by by_date_desc_lastName (attendance_join s)"

text \<open>
  The listing as the specification words it, with no use of the code's row builder: the
  attendance records whose referenced student and session both exist, each paired with
  the student whose id is its \<^verbatim>\<open>studentId\<close> and the session whose id is its \<^verbatim>\<open>sessionId\<close>; a
  record with a missing reference contributes nothing. \<open>attendance_of\<close> reads the
  attendance record off a returned row, column by column.
\<close>

definition records_with_refs :: "db \<Rightarrow> (AttendanceRecord \<times> Student \<times> Session) list" where
  "records_with_refs s =
     concat (map (\<lambda>a.
       case (find (\<lambda>x. stu_id x = att_studentId a) (students s),
             find (\<lambda>x. ses_id x = att_sessionId a) (sessions s)) of
         (Some st, Some se) \<Rightarrow> [(a, st, se)]
       | _ \<Rightarrow> []) (attendanceRecords s))"

definition attendance_of :: "AttendanceRecordWithStudent \<Rightarrow> AttendanceRecord" where
  "attendance_of row =
     \<lparr>att_id = att_id row, att_studentId = att_studentId row,
      att_sessionId = att_sessionId row, att_status = att_status row,
      att_notes = att_notes row, att_recordedAt = att_recordedAt row\<rparr>"

definition row_parts ::
  "AttendanceRecordWithStudent \<Rightarrow> AttendanceRecord \<times> Student \<times> Session" where
  "row_parts row = (attendance_of row, student row, session row)"

text \<open>The rows that the joins produce for one attendance record.\<close>

abbreviation rows_of ::
  "AttendanceRecord \<Rightarrow> Student list \<Rightarrow> Session list \<Rightarrow> AttendanceRecordWithStudent list" where
  "rows_of a sts ses \<equiv>
     [with_refs a st se.
        st \<leftarrow> sts, att_studentId a = stu_id st, se \<leftarrow> ses, att_sessionId a = ses_id se]"

subsection \<open>Numbers of the dashboard\<close>

text \<open>
  A JavaScript number is an IEEE 754 double. \<open>binary64 x\<close> is the double nearest to the
  rational \<open>x\<close>, ties to the even significand, for \<open>x\<close> in the normal range (the
  dashboard's values lie between \<open>2 powi -31\<close> and \<open>100\<close>): with \<open>2 powi e\<close> the unit in
  the last of the 53 significant bits, \<open>x\<close> is rounded to a multiple of it. The
  operations \<^verbatim>\<open>/\<close> and \<^verbatim>\<open>*\<close> return the double nearest to the exact result, and
  \<^verbatim>\<open>Math.round\<close> the integer nearest to its argument, a half going up.
\<close>

definition round_half_even :: "rat \<Rightarrow> int" where
  "round_half_even x =
     (let f = \<lfloor>x\<rfloor>; r = x - of_int f
      in if r < 1 / 2 then f else if 1 / 2 < r then f + 1 else if even f then f else f + 1)"

definition ilog2 :: "rat \<Rightarrow> int" where
  "ilog2 x =
     (case quotient_of x of (a, b) \<Rightarrow>
        let d = bitlen a - bitlen b in if 2 powi d \<le> x then d else d - 1)"

definition binary64 :: "rat \<Rightarrow> rat" where
  "binary64 x =
     (if x = 0 then 0
      else let e = ilog2 \<bar>x\<bar> - 52 in of_int (round_half_even (x / 2 powi e)) * 2 powi e)"

definition Math_round :: "rat \<Rightarrow> int" where
  "Math_round x = \<lfloor>x + 1 / 2\<rfloor>"

text \<open>
  \<^verbatim>\<open>totalAttendance.total > 0 ? Math.round(((totalAttendance.present || 0) /
  totalAttendance.total) * 100) : 0\<close> (storage.ts 173-175).
\<close>

definition overallRate :: "nat \<Rightarrow> nat \<Rightarrow> int" where
  "overallRate presentCount totalCount =
     (if 0 < totalCount
      then Math_round (binary64 (binary64 (of_nat presentCount / of_nat totalCount) * 100))
      else 0)"

subsection \<open>Dashboard\<close>

record TodayAttendance =
  present :: nat
  absent :: nat
  late :: nat
  excused :: nat

record DashboardStats =
  totalStudents :: nat
  totalSessions :: nat
  todayAttendance :: TodayAttendance
  overallAttendanceRate :: int
  recentSessions :: "Session list"

text \<open>
  The query of storage.ts 143-151: attendance records joined with their session, kept
  when the session's date is \<^verbatim>\<open>today\<close>, grouped by status, one (status, count) row for each
  status that occurs.
\<close>

definition today_statuses :: "date \<Rightarrow> db \<Rightarrow> AttendanceStatus list" where
  "today_statuses today s =
     [att_status a.
        a \<leftarrow> attendanceRecords s,
        se \<leftarrow> sessions s, att_sessionId a = ses_id se, ses_date se = today]"

definition todayRecords :: "date \<Rightarrow> db \<Rightarrow> (AttendanceStatus \<times> nat) list" where
  "todayRecords today s =
     (let sts = today_statuses today s
      in map (\<lambda>st. (st, count_list sts st)) (remdups sts))"

text \<open>
  The body of the \<^verbatim>\<open>forEach\<close> (storage.ts 160-164); every status of the enumeration is a
  key of \<^verbatim>\<open>todayAttendance\<close>, so the \<^verbatim>\<open>in\<close> test holds.
\<close>

fun set_count :: "AttendanceStatus \<times> nat \<Rightarrow> TodayAttendance \<Rightarrow> TodayAttendance" where
  "set_count (Present, n) t = t\<lparr>present := n\<rparr>"
| "set_count (Absent, n) t = t\<lparr>absent := n\<rparr>"
| "set_count (Late, n) t = t\<lparr>late := n\<rparr>"
| "set_count (Excused, n) t = t\<lparr>excused := n\<rparr>"

definition by_date_desc :: "Session \<Rightarrow> Session \<Rightarrow> bool" where
  "by_date_desc a b \<longleftrightarrow> ses_date b \<le> ses_date a"

definition getSessions :: "db \<Rightarrow> Session list" where
  "getSessions s = order_by by_date_desc (sessions s)"

text \<open>
  \<^verbatim>\<open>getDashboardStats\<close> (storage.ts 132-190); \<^verbatim>\<open>today\<close> is the date that
  \<^verbatim>\<open>new Date().toISOString().split('T')[0]\<close> reads off the clock.
\<close>

definition getDashboardStats :: "date \<Rightarrow> db \<Rightarrow> DashboardStats" where
  "getDashboardStats today s =
     \<lparr>totalStudents = length (students s),
      totalSessions = length (sessions s),
      todayAttendance =
        fold set_count (todayRecords today s)
          \<lparr>present = 0, absent = 0, late = 0, excused = 0\<rparr>,
      overallAttendanceRate =
        overallRate
          (length (filter (\<lambda>a. att_status a = Present) (attendanceRecords s)))
          (length (attendanceRecords s)),
      recentSessions = take 5 (order_by by_date_desc (sessions s))\<rparr>"

text \<open>
  The counts as the specification words them: an attendance record is of today when the
  session it references has today's date.
\<close>

definition on_date :: "date \<Rightarrow> db \<Rightarrow> AttendanceRecord \<Rightarrow> bool" where
  "on_date today s a \<longleftrightarrow>
     (\<exists>se\<in>set (sessions s). ses_id se = att_sessionId a \<and> ses_date se = today)"

definition today_count :: "date \<Rightarrow> db \<Rightarrow> AttendanceStatus \<Rightarrow> nat" where
  "today_count today s st =
     length (filter (\<lambda>a. att_status a = st \<and> on_date today s a) (attendanceRecords s))"

fun count_of :: "AttendanceStatus \<Rightarrow> TodayAttendance \<Rightarrow> nat" where
  "count_of Present t = present t"
| "count_of Absent t = absent t"
| "count_of Late t = late t"
| "count_of Excused t = excused t"

text \<open>
  The rate as the specification words it: the exact percentage, rounded to the nearest
  integer with a half going up.
\<close>

definition exact_percentage :: "nat \<Rightarrow> nat \<Rightarrow> rat" where
  "exact_percentage presentCount totalCount = 100 * of_nat presentCount / of_nat totalCount"

definition round_half_up :: "rat \<Rightarrow> int" where
  "round_half_up x = \<lfloor>x + 1 / 2\<rfloor>"

definition total_count :: "db \<Rightarrow> nat" where
  "total_count s = length (attendanceRecords s)"

definition present_count :: "db \<Rightarrow> nat" where
  "present_count s = length (filter (\<lambda>a. att_status a = Present) (attendanceRecords s))"

section \<open>Validation (shared/schema.ts) and request handlers (server/routes.ts)\<close>

text \<open>
  A request body is a JSON value; an object is the list of its members, a key read with
  \<open>map_of\<close>. A \<^verbatim>\<open>ZodError\<close> is the list of the paths of its issues.
\<close>

datatype json =
  JNull | JBool bool | JNumber rat | JString string | JArray "json list"
  | JObject "(string \<times> json) list"

datatype path_elem = Key string | Index nat

type_synonym issue = "path_elem list"

text \<open>
  The field schemas. Each takes the member's value (\<open>None\<close> when the key is missing) and
  returns the parsed value, or \<open>None\<close> when it raises an issue.
  \<^verbatim>\<open>z.number().int()\<close> stands for the integer columns, \<^verbatim>\<open>z.string().nullable().optional()\<close>
  for the nullable text columns (\<open>Some None\<close>: key missing, \<open>Some (Some None)\<close>: \<^verbatim>\<open>null\<close>).
  The syntax test of \<^verbatim>\<open>z.string().email()\<close> is the parameter \<open>is_email\<close>.
\<close>

fun z_int :: "json option \<Rightarrow> int option" where
  "z_int (Some (JNumber r)) = (if r = of_int \<lfloor>r\<rfloor> then Some \<lfloor>r\<rfloor> else None)"
| "z_int _ = None"

fun status_of :: "string \<Rightarrow> AttendanceStatus option" where
  "status_of v =
     (if v = ''present'' then Some Present
      else if v = ''absent'' then Some Absent
      else if v = ''late'' then Some Late
      else if v = ''excused'' then Some Excused
      else None)"

fun z_status :: "json option \<Rightarrow> AttendanceStatus option" where
  "z_status (Some (JString v)) = status_of v"
| "z_status _ = None"

fun z_string_min1 :: "json option \<Rightarrow> string option" where
  "z_string_min1 (Some (JString v)) = (if v = [] then None else Some v)"
| "z_string_min1 _ = None"

fun z_email :: "(string \<Rightarrow> bool) \<Rightarrow> json option \<Rightarrow> string option" where
  "z_email is_email (Some (JString v)) = (if is_email v then Some v else None)"
| "z_email is_email _ = None"

fun z_string_nullable_optional :: "json option \<Rightarrow> string option option option" where
  "z_string_nullable_optional None = Some None"
| "z_string_nullable_optional (Some JNull) = Some (Some None)"
| "z_string_nullable_optional (Some (JString v)) = Some (Some (Some v))"
| "z_string_nullable_optional _ = None"

text \<open>\<^verbatim>\<open>.partial()\<close> makes a field optional: a missing key passes, a given value is checked.\<close>

fun z_optional :: "(json option \<Rightarrow> 'a option) \<Rightarrow> json option \<Rightarrow> 'a option option" where
  "z_optional z None = Some None"
| "z_optional z (Some j) = map_option Some (z (Some j))"

definition issue_at :: "string \<Rightarrow> 'a option \<Rightarrow> issue list" where
  "issue_at k v = (case v of None \<Rightarrow> [[Key k]] | Some _ \<Rightarrow> [])"

definition null_or_missing :: "string option option \<Rightarrow> string option" where
  "null_or_missing v = (case v of None \<Rightarrow> None | Some w \<Rightarrow> w)"

text \<open>\<^verbatim>\<open>createAttendanceSchema.parse\<close> (schema.ts 62, 79-81).\<close>

definition createAttendanceSchema_parse :: "json \<Rightarrow> issue list + InsertAttendanceRecord" where
  "createAttendanceSchema_parse j =
     (case j of
        JObject kvs \<Rightarrow>
          (let studentId = z_int (map_of kvs ''studentId'');
               sessionId = z_int (map_of kvs ''sessionId'');
               st = z_status (map_of kvs ''status'');
               notes = z_string_nullable_optional (map_of kvs ''notes'')
           in case (studentId, sessionId, st, notes) of
                (Some a, Some b, Some c, Some d) \<Rightarrow>
                  Inr \<lparr>ins_studentId = a, ins_sessionId = b, ins_status = c,
                       ins_notes = null_or_missing d\<rparr>
              | _ \<Rightarrow>
                  Inl (issue_at ''studentId'' studentId @ issue_at ''sessionId'' sessionId @
                       issue_at ''status'' st @ issue_at ''notes'' notes))
      | _ \<Rightarrow> Inl [[]])"

text \<open>\<^verbatim>\<open>z.array(createAttendanceSchema)\<close>: every element is parsed, all issues are collected.\<close>

fun parse_records :: "nat \<Rightarrow> json list \<Rightarrow> issue list + InsertAttendanceRecord list" where
  "parse_records i [] = Inr []"
| "parse_records i (j # js) =
     (case (createAttendanceSchema_parse j, parse_records (i + 1) js) of
        (Inr r, Inr rs) \<Rightarrow> Inr (r # rs)
      | (Inr r, Inl es) \<Rightarrow> Inl es
      | (Inl e, Inr rs) \<Rightarrow> Inl (map ((#) (Index i)) e)
      | (Inl e, Inl es) \<Rightarrow> Inl (map ((#) (Index i)) e @ es))"

text \<open>\<^verbatim>\<open>bulkAttendanceSchema.parse\<close> (routes.ts 183-185).\<close>

definition bulkAttendanceSchema_parse :: "json \<Rightarrow> issue list + InsertAttendanceRecord list" where
  "bulkAttendanceSchema_parse j =
     (case j of
        JObject kvs \<Rightarrow>
          (case map_of kvs ''records'' of
             Some (JArray js) \<Rightarrow>
               (case parse_records 0 js of
                  Inl es \<Rightarrow> Inl (map ((#) (Key ''records'')) es)
                | Inr rs \<Rightarrow> Inr rs)
           | _ \<Rightarrow> Inl [[Key ''records'']])
      | _ \<Rightarrow> Inl [[]])"

text \<open>\<^verbatim>\<open>createStudentSchema.parse\<close> (schema.ts 60, 65-70).\<close>

definition createStudentSchema_parse :: "(string \<Rightarrow> bool) \<Rightarrow> json \<Rightarrow> issue list + InsertStudent" where
  "createStudentSchema_parse is_email j =
     (case j of
        JObject kvs \<Rightarrow>
          (let studentId = z_string_min1 (map_of kvs ''studentId'');
               firstName = z_string_min1 (map_of kvs ''firstName'');
               lastName = z_string_min1 (map_of kvs ''lastName'');
               email = z_email is_email (map_of kvs ''email'');
               photoUrl = z_string_nullable_optional (map_of kvs ''photoUrl'')
           in case (studentId, firstName, lastName, email, photoUrl) of
                (Some a, Some b, Some c, Some d, Some e) \<Rightarrow>
                  Inr \<lparr>new_studentId = a, new_firstName = b, new_lastName = c, new_email = d,
                       new_photoUrl = null_or_missing e\<rparr>
              | _ \<Rightarrow>
                  Inl (issue_at ''studentId'' studentId @ issue_at ''firstName'' firstName @
                       issue_at ''lastName'' lastName @ issue_at ''email'' email @
                       issue_at ''photoUrl'' photoUrl))
      | _ \<Rightarrow> Inl [[]])"

text \<open>\<^verbatim>\<open>updateStudentSchema = createStudentSchema.partial()\<close> (schema.ts 72).\<close>

definition updateStudentSchema_parse :: "(string \<Rightarrow> bool) \<Rightarrow> json \<Rightarrow> issue list + StudentPatch" where
  "updateStudentSchema_parse is_email j =
     (case j of
        JObject kvs \<Rightarrow>
          (let studentId = z_optional z_string_min1 (map_of kvs ''studentId'');
               firstName = z_optional z_string_min1 (map_of kvs ''firstName'');
               lastName = z_optional z_string_min1 (map_of kvs ''lastName'');
               email = z_optional (z_email is_email) (map_of kvs ''email'');
               photoUrl = z_string_nullable_optional (map_of kvs ''photoUrl'')
           in case (studentId, firstName, lastName, email, photoUrl) of
                (Some a, Some b, Some c, Some d, Some e) \<Rightarrow>
                  Inr \<lparr>set_studentId = a, set_firstName = b, set_lastName = c, set_email = d,
                       set_photoUrl = e\<rparr>
              | _ \<Rightarrow>
                  Inl (issue_at ''studentId'' studentId @ issue_at ''firstName'' firstName @
                       issue_at ''lastName'' lastName @ issue_at ''email'' email @
                       issue_at ''photoUrl'' photoUrl))
      | _ \<Rightarrow> Inl [[]])"

subsection \<open>Handlers\<close>

datatype response_body =
  OneStudent Student | Attendance "AttendanceRecord list" | Issues "issue list" | Message string

record response =
  status :: nat
  body :: response_body

text \<open>\<^verbatim>\<open>POST /api/students\<close> (routes.ts 87-99).\<close>

definition post_students :: "(string \<Rightarrow> bool) \<Rightarrow> json \<Rightarrow> db \<Rightarrow> response \<times> db" where
  "post_students is_email reqBody s =
     (case createStudentSchema_parse is_email reqBody of
        Inl errors \<Rightarrow> (\<lparr>status = 400, body = Issues errors\<rparr>, s)
      | Inr validated \<Rightarrow>
          (case createStudent validated s of
             (Inr student', s') \<Rightarrow> (\<lparr>status = 201, body = OneStudent student'\<rparr>, s')
           | (Inl error, s') \<Rightarrow>
               (\<lparr>status = 500, body = Message ''Failed to create student''\<rparr>, s')))"

text \<open>
  \<^verbatim>\<open>PATCH /api/students/:id\<close> (routes.ts 101-117), for a path parameter that
  \<^verbatim>\<open>parseInt\<close> reads as the integer \<open>id'\<close>.
\<close>

definition patch_students :: "(string \<Rightarrow> bool) \<Rightarrow> int \<Rightarrow> json \<Rightarrow> db \<Rightarrow> response \<times> db" where
  "patch_students is_email id' reqBody s =
     (case updateStudentSchema_parse is_email reqBody of
        Inl errors \<Rightarrow> (\<lparr>status = 400, body = Issues errors\<rparr>, s)
      | Inr validated \<Rightarrow>
          (case updateStudent id' validated s of
             (Inr None, s') \<Rightarrow> (\<lparr>status = 404, body = Message ''Student not found''\<rparr>, s')
           | (Inr (Some student'), s') \<Rightarrow> (\<lparr>status = 200, body = OneStudent student'\<rparr>, s')
           | (Inl error, s') \<Rightarrow>
               (\<lparr>status = 500, body = Message ''Failed to update student''\<rparr>, s')))"

text \<open>\<^verbatim>\<open>POST /api/attendance/bulk\<close> (routes.ts 187-199).\<close>

definition post_attendance_bulk :: "timestamp \<Rightarrow> json \<Rightarrow> db \<Rightarrow> response \<times> db" where
  "post_attendance_bulk now reqBody s =
     (case bulkAttendanceSchema_parse reqBody of
        Inl errors \<Rightarrow> (\<lparr>status = 400, body = Issues errors\<rparr>, s)
      | Inr validated \<Rightarrow>
          (case createBulkAttendance now validated s of
             (Inr records, s') \<Rightarrow> (\<lparr>status = 201, body = Attendance records\<rparr>, s')
           | (Inl error, s') \<Rightarrow>
               (\<lparr>status = 500, body = Message ''Failed to create attendance records''\<rparr>, s')))"

section \<open>Constraints of the schema\<close>

text \<open>
  What PostgreSQL maintains for the schema: each \<^verbatim>\<open>id\<close> is a primary key drawn from its
  identity sequence, so the ids of a table are distinct and below the sequence's next
  value; \<^verbatim>\<open>student_id\<close> is unique and at most 50 characters long; the foreign keys of
  an attendance record reference rows that exist.
\<close>

definition pk_students :: "db \<Rightarrow> bool" where
  "pk_students s \<longleftrightarrow>
     distinct (map stu_id (students s)) \<and>
     list_all (\<lambda>x. stu_id x < students_seq s) (students s)"

definition pk_sessions :: "db \<Rightarrow> bool" where
  "pk_sessions s \<longleftrightarrow>
     distinct (map ses_id (sessions s)) \<and>
     list_all (\<lambda>x. ses_id x < sessions_seq s) (sessions s)"

definition pk_attendanceRecords :: "db \<Rightarrow> bool" where
  "pk_attendanceRecords s \<longleftrightarrow>
     distinct (map att_id (attendanceRecords s)) \<and>
     list_all (\<lambda>a. att_id a < attendanceRecords_seq s) (attendanceRecords s)"

definition unique_studentId :: "db \<Rightarrow> bool" where
  "unique_studentId s \<longleftrightarrow> distinct (map stu_studentId (students s))"

definition student_id_fits :: "db \<Rightarrow> bool" where
  "student_id_fits s \<longleftrightarrow> list_all (\<lambda>x. length (stu_studentId x) \<le> 50) (students s)"

definition references_ok :: "db \<Rightarrow> bool" where
  "references_ok s \<longleftrightarrow> list_all (fk_ok s) (map insert_fields (attendanceRecords s))"

definition constraints_hold :: "db \<Rightarrow> bool" where
  "constraints_hold s \<longleftrightarrow>
     pk_students s \<and> pk_sessions s \<and> pk_attendanceRecords s \<and>
     unique_studentId s \<and> student_id_fits s \<and> references_ok s"

section \<open>Sample data\<close>

definition ann :: Student where
  "ann = \<lparr>stu_id = 1, stu_studentId = ''S1'', stu_firstName = ''Ann'', stu_lastName = ''Lee'',
           stu_email = ''ann@x.com'', stu_photoUrl = None\<rparr>"

definition bob :: Student where
  "bob = \<lparr>stu_id = 2, stu_studentId = ''S2'', stu_firstName = ''Bob'', stu_lastName = ''Kim'',
           stu_email = ''bob@x.com'', stu_photoUrl = None\<rparr>"

definition lecture1 :: Session where
  "lecture1 = \<lparr>ses_id = 1, ses_name = ''Lecture 1'', ses_date = (2024, 1, 10),
                ses_createdAt = 5\<rparr>"

definition lecture2 :: Session where
  "lecture2 = \<lparr>ses_id = 2, ses_name = ''Lecture 2'', ses_date = (2024, 1, 17),
                ses_createdAt = 6\<rparr>"

definition attendance_row :: "int \<Rightarrow> int \<Rightarrow> int \<Rightarrow> AttendanceStatus \<Rightarrow> AttendanceRecord" where
  "attendance_row i studentId sessionId st =
     \<lparr>att_id = i, att_studentId = studentId, att_sessionId = sessionId, att_status = st,
      att_notes = None, att_recordedAt = 7\<rparr>"

definition example_db :: db where
  "example_db =
     \<lparr>students = [ann, bob], sessions = [lecture1, lecture2],
      attendanceRecords =
        [attendance_row 1 1 1 Absent, attendance_row 2 2 1 Late, attendance_row 3 1 2 Present],
      students_seq = 3, sessions_seq = 3, attendanceRecords_seq = 4\<rparr>"

definition example_record :: InsertAttendanceRecord where
  "example_record =
     \<lparr>ins_studentId = 1, ins_sessionId = 1, ins_status = Present, ins_notes = None\<rparr>"

definition orphan_record :: InsertAttendanceRecord where
  "orphan_record =
     \<lparr>ins_studentId = 99, ins_sessionId = 1, ins_status = Present, ins_notes = None\<rparr>"

definition orphan_db :: db where
  "orphan_db =
     example_db\<lparr>attendanceRecords :=
       attendanceRecords example_db @ [attendance_row 4 99 1 Present]\<rparr>"

text \<open>
  The sample requests. \<open>like_email\<close> stands in the examples for the syntax test of
  \<^verbatim>\<open>z.string().email()\<close>, which accepts \<^verbatim>\<open>amy@x.com\<close>.
\<close>

definition like_email :: "string \<Rightarrow> bool" where
  "like_email v \<longleftrightarrow> CHR ''@'' \<in> set v"

definition duplicate_student_body :: json where
  "duplicate_student_body =
     JObject [(''studentId'', JString ''S1''), (''firstName'', JString ''Amy''),
              (''lastName'', JString ''Ng''), (''email'', JString ''amy@x.com'')]"

definition duplicate_student :: InsertStudent where
  "duplicate_student =
     \<lparr>new_studentId = ''S1'', new_firstName = ''Amy'', new_lastName = ''Ng'',
      new_email = ''amy@x.com'', new_photoUrl = None\<rparr>"

definition bulk_body_missing_studentId :: json where
  "bulk_body_missing_studentId =
     JObject [(''records'', JArray
       [JObject [(''studentId'', JNumber 1), (''sessionId'', JNumber 1),
                 (''status'', JString ''present'')],
        JObject [(''sessionId'', JNumber 1), (''status'', JString ''late'')]])]"

text \<open>A store with 40 attendance records, 23 of them present.\<close>

definition rate_db :: db where
  "rate_db =
     example_db\<lparr>attendanceRecords :=
       map (\<lambda>i. attendance_row i 1 1 Present) [1..23] @
       map (\<lambda>i. attendance_row i 2 1 Absent) [24..40],
       attendanceRecords_seq := 41\<rparr>"

section \<open>Properties\<close>

lemmas sample_defs =
  example_db_def orphan_db_def ann_def bob_def lecture1_def lecture2_def attendance_row_def
  example_record_def orphan_record_def

subsection \<open>Rows of an INSERT\<close>

lemma length_new_rows: "length (new_rows now i rs) = length rs"
  by (induction rs arbitrary: i) simp_all

lemma insert_fields_new_row: "insert_fields (new_row now i r) = r"
  by (simp add: insert_fields_def new_row_def)

lemma insert_fields_new_rows: "map insert_fields (new_rows now i rs) = rs"
  by (induction rs arbitrary: i) (simp_all add: insert_fields_new_row)

lemma att_id_new_rows:
  "a \<in> set (new_rows now i rs) \<Longrightarrow> i \<le> att_id a \<and> att_id a < i + int (length rs)"
proof (induction rs arbitrary: i)
  case Nil
  then show ?case by simp
next
  case (Cons r rs)
  show ?case
  proof (cases "a = new_row now i r")
    case True
    then show ?thesis by (simp add: new_row_def)
  next
    case False
    with Cons.prems have "a \<in> set (new_rows now (i + 1) rs)" by simp
    from Cons.IH [OF this] show ?thesis by simp
  qed
qed

lemma distinct_new_rows: "distinct (map att_id (new_rows now i rs))"
proof (induction rs arbitrary: i)
  case Nil
  show ?case by simp
next
  case (Cons r rs)
  have "i \<notin> att_id ` set (new_rows now (i + 1) rs)"
    by (fastforce dest: att_id_new_rows)
  with Cons.IH [of "i + 1"] show ?case by (simp add: new_row_def)
qed

lemma recordedAt_new_rows: "a \<in> set (new_rows now i rs) \<Longrightarrow> att_recordedAt a = now"
  by (induction rs arbitrary: i) (auto simp: new_row_def)

lemma filter_new_rows:
  "map insert_fields (filter (\<lambda>a. att_sessionId a = sid) (new_rows now i rs)) =
     filter (\<lambda>x. ins_sessionId x = sid) rs"
  by (induction rs arbitrary: i) (simp_all add: new_row_def insert_fields_def)

lemma fk_ok_cong:
  "students s' = students s \<Longrightarrow> sessions s' = sessions s \<Longrightarrow> fk_ok s' = fk_ok s"
  by (rule ext) (simp add: fk_ok_def)

lemma fk_ok_delete [simp]: "fk_ok (delete_attendance_of_session sid s) = fk_ok s"
  by (rule fk_ok_cong) (simp_all add: delete_attendance_of_session_def)

lemma fk_ok_insert [simp]: "fk_ok (snd (insert_attendanceRecords now records s)) = fk_ok s"
  by (rule fk_ok_cong) (simp_all add: insert_attendanceRecords_def Let_def)

lemma fk_ok_bulk [simp]: "fk_ok (snd (createBulkAttendance now records s)) = fk_ok s"
  by (cases records) (simp_all add: createBulkAttendance_def)

subsection \<open>The operations keep the constraints\<close>

lemma constraints_empty:
  "constraints_hold \<lparr>students = [], sessions = [], attendanceRecords = [], students_seq = 1,
     sessions_seq = 1, attendanceRecords_seq = 1\<rparr>"
  by (simp add: constraints_hold_def pk_students_def pk_sessions_def pk_attendanceRecords_def
      unique_studentId_def student_id_fits_def references_ok_def)

lemma fk_ok_insert_fields:
  "fk_ok s (insert_fields a) \<longleftrightarrow>
     att_studentId a \<in> stu_id ` set (students s) \<and> att_sessionId a \<in> ses_id ` set (sessions s)"
  by (simp add: fk_ok_def insert_fields_def)

lemma fk_ok_update [simp]:
  "fk_ok (s\<lparr>attendanceRecords := rows\<rparr>) = fk_ok s"
  "fk_ok (s\<lparr>attendanceRecords_seq := n\<rparr>) = fk_ok s"
  by (rule fk_ok_cong; simp)+

lemma pk_attendanceRecords_insert:
  assumes "pk_attendanceRecords s"
  shows "pk_attendanceRecords (snd (insert_attendanceRecords now rs s))"
proof -
  let ?n = "attendanceRecords_seq s"
  let ?rows = "new_rows now ?n rs"
  from assms have d: "distinct (map att_id (attendanceRecords s))"
    and b: "\<forall>a\<in>set (attendanceRecords s). att_id a < ?n"
    by (simp_all add: pk_attendanceRecords_def list_all_iff)
  have new: "\<forall>a\<in>set ?rows. ?n \<le> att_id a \<and> att_id a < ?n + int (length rs)"
    using att_id_new_rows by blast
  from b new have "att_id ` set (attendanceRecords s) \<inter> att_id ` set ?rows = {}"
    by fastforce
  with d distinct_new_rows [of now ?n rs]
  have "distinct (map att_id (attendanceRecords s @ ?rows))"
    by simp
  moreover from b new
  have "\<forall>a\<in>set (attendanceRecords s @ ?rows). att_id a < ?n + int (length rs)"
    by fastforce
  moreover from b have "\<forall>a\<in>set (attendanceRecords s). att_id a < ?n + int (length rs)"
    by fastforce
  ultimately show ?thesis
    using d by (simp add: insert_attendanceRecords_def Let_def pk_attendanceRecords_def
        list_all_iff del: set_append)
qed

lemma pk_attendanceRecords_delete:
  "pk_attendanceRecords s \<Longrightarrow> pk_attendanceRecords (delete_attendance_of_session sid s)"
  by (simp add: pk_attendanceRecords_def delete_attendance_of_session_def list_all_iff
      distinct_map_filter)

lemma references_ok_insert:
  assumes "references_ok s"
  shows "references_ok (snd (insert_attendanceRecords now rs s))"
proof (cases "list_all (fk_ok s) rs")
  case True
  with assms show ?thesis
    by (simp add: insert_attendanceRecords_def Let_def references_ok_def
        insert_fields_new_rows)
next
  case False
  with assms show ?thesis
    by (simp add: insert_attendanceRecords_def Let_def references_ok_def)
qed

lemma references_ok_delete:
  "references_ok s \<Longrightarrow> references_ok (delete_attendance_of_session sid s)"
  by (simp add: references_ok_def delete_attendance_of_session_def list_all_iff)

lemma constraints_createBulkAttendance:
  assumes "constraints_hold s"
  shows "constraints_hold (snd (createBulkAttendance now records s))"
proof (cases records)
  case Nil
  with assms show ?thesis by (simp add: createBulkAttendance_def)
next
  case (Cons r rs)
  let ?s1 = "delete_attendance_of_session (ins_sessionId r) s"
  let ?s2 = "snd (insert_attendanceRecords now records ?s1)"
  have same: "students ?s2 = students s" "sessions ?s2 = sessions s"
    "students_seq ?s2 = students_seq s" "sessions_seq ?s2 = sessions_seq s"
    by (simp_all add: insert_attendanceRecords_def Let_def delete_attendance_of_session_def)
  from assms have "pk_attendanceRecords ?s2" and "references_ok ?s2"
    by (simp_all add: constraints_hold_def pk_attendanceRecords_insert
        pk_attendanceRecords_delete references_ok_insert references_ok_delete)
  moreover from assms same have "pk_students ?s2" "pk_sessions ?s2" "unique_studentId ?s2"
    "student_id_fits ?s2"
    by (simp_all add: constraints_hold_def pk_students_def pk_sessions_def
        unique_studentId_def student_id_fits_def)
  ultimately show ?thesis
    using Cons by (simp add: constraints_hold_def createBulkAttendance_def)
qed

lemma constraints_deleteStudent:
  assumes "constraints_hold s"
  shows "constraints_hold (snd (deleteStudent id' s))"
proof (cases "filter (\<lambda>x. stu_id x = id') (students s) = []")
  case True
  then have "filter (\<lambda>x. stu_id x \<noteq> id') (students s) = students s"
    by (simp add: filter_empty_conv filter_id_conv)
  with True have "snd (deleteStudent id' s) = s"
    by (simp add: deleteStudent_def)
  with assms show ?thesis by simp
next
  case False
  let ?s' = "snd (deleteStudent id' s)"
  from False have st: "students ?s' = filter (\<lambda>x. stu_id x \<noteq> id') (students s)"
    and at: "attendanceRecords ?s' = filter (\<lambda>a. att_studentId a \<noteq> id') (attendanceRecords s)"
    and same: "sessions ?s' = sessions s" "students_seq ?s' = students_seq s"
      "sessions_seq ?s' = sessions_seq s" "attendanceRecords_seq ?s' = attendanceRecords_seq s"
    by (simp_all add: deleteStudent_def)
  from assms have "pk_students ?s'" "unique_studentId ?s'" "student_id_fits ?s'"
    unfolding constraints_hold_def pk_students_def unique_studentId_def student_id_fits_def
      st same
    by (simp_all add: list_all_iff distinct_map_filter)
  moreover from assms have "pk_sessions ?s'"
    unfolding constraints_hold_def pk_sessions_def same by simp
  moreover from assms have "pk_attendanceRecords ?s'"
    unfolding constraints_hold_def pk_attendanceRecords_def at same
    by (simp add: list_all_iff distinct_map_filter)
  moreover from assms have "references_ok ?s'"
    unfolding constraints_hold_def references_ok_def
    by (simp add: list_all_iff fk_ok_insert_fields st at same) force
  ultimately show ?thesis
    by (simp add: constraints_hold_def)
qed

lemma constraints_createStudent:
  assumes "constraints_hold s"
  shows "constraints_hold (snd (createStudent v s))"
proof -
  from assms have b: "\<forall>x\<in>set (students s). stu_id x < students_seq s"
    by (simp add: constraints_hold_def pk_students_def list_all_iff)
  then have "students_seq s \<notin> stu_id ` set (students s)"
    by force
  with assms b show ?thesis
    by (auto simp: createStudent_def Let_def constraints_hold_def pk_students_def
        pk_sessions_def pk_attendanceRecords_def unique_studentId_def student_id_fits_def
        references_ok_def list_all_iff fk_ok_insert_fields student_row_def)
qed

lemma distinct_update_row:
  assumes "distinct (map key xs)" and "distinct (map val xs)"
    and "\<forall>x\<in>set xs. key x \<noteq> k \<longrightarrow> val x \<noteq> v"
    and "\<forall>x\<in>set xs. key x = k \<longrightarrow> val (g x) = v"
  shows "distinct (map val (map (\<lambda>x. if key x = k then g x else x) xs))"
  using assms
proof (induction xs)
  case Nil
  show ?case by simp
next
  case (Cons y ys)
  let ?f = "\<lambda>x. if key x = k then g x else x"
  from Cons have IH: "distinct (map val (map ?f ys))" by simp
  show ?case
  proof (cases "key y = k")
    case True
    with Cons.prems(1) have other: "\<forall>x\<in>set ys. key x \<noteq> k" by (auto simp: image_iff)
    then have "map ?f ys = ys" by (simp add: map_idI)
    moreover from other Cons.prems(3) have "v \<notin> val ` set ys" by auto
    moreover from True Cons.prems(4) have "val (g y) = v" by simp
    ultimately show ?thesis using True Cons.prems(2) by simp
  next
    case False
    with Cons.prems(3) have ne: "val y \<noteq> v" by simp
    from Cons.prems(2) have notin: "val y \<notin> val ` set ys" by simp
    have head: "map val (map ?f (y # ys)) = val y # map val (map ?f ys)"
      using False by simp
    have "val y \<notin> set (map val (map ?f ys))"
    proof
      assume "val y \<in> set (map val (map ?f ys))"
      then obtain z where z: "z \<in> set ys" and eq: "val y = val (?f z)" by auto
      show False
      proof (cases "key z = k")
        case True
        with Cons.prems(4) z have "val (g z) = v" by simp
        with eq True ne show False by simp
      next
        case False
        with eq have "val y = val z" by simp
        with z notin show False by blast
      qed
    qed
    with IH show ?thesis
      unfolding head by (simp only: distinct.simps simp_thms)
  qed
qed

lemma stu_id_apply_patch [simp]: "stu_id (apply_patch p x) = stu_id x"
  by (simp add: apply_patch_def)

lemma constraints_updateStudent:
  assumes "constraints_hold s"
  shows "constraints_hold (snd (updateStudent id' p s))"
proof (cases "find (\<lambda>x. stu_id x = id') (students s)")
  case None
  with assms show ?thesis by (simp add: updateStudent_def)
next
  case (Some old)
  let ?f = "\<lambda>x. if stu_id x = id' then apply_patch p x else x"
  let ?v = "stu_studentId (apply_patch p old)"
  let ?s' = "s\<lparr>students := map ?f (students s)\<rparr>"
  show ?thesis
  proof (cases "no_values p \<or> 50 < length ?v \<or>
      ?v \<in> set (map stu_studentId (filter (\<lambda>x. stu_id x \<noteq> id') (students s)))")
    case True
    with Some assms show ?thesis by (auto simp: updateStudent_def Let_def)
  next
    case False
    with Some have upd: "snd (updateStudent id' p s) = ?s'"
      by (simp add: updateStudent_def Let_def)
    from assms have d: "distinct (map stu_id (students s))"
      and u: "distinct (map stu_studentId (students s))"
      by (simp_all add: constraints_hold_def pk_students_def unique_studentId_def)
    from d have inj: "inj_on stu_id (set (students s))"
      by (simp add: distinct_map)
    from Some have old: "old \<in> set (students s)" "stu_id old = id'"
      by (auto simp: find_Some_iff)
    have only: "x = old" if "x \<in> set (students s)" "stu_id x = id'" for x
      using inj that old by (simp add: inj_on_def)
    have ids: "map stu_id (map ?f (students s)) = map stu_id (students s)"
      by (simp add: comp_def if_distrib cong: if_cong)
    have fresh: "\<forall>x\<in>set (students s). stu_id x \<noteq> id' \<longrightarrow> stu_studentId x \<noteq> ?v"
    proof (intro ballI impI)
      fix x
      assume "x \<in> set (students s)" and "stu_id x \<noteq> id'"
      then have "stu_studentId x \<in>
          set (map stu_studentId (filter (\<lambda>x. stu_id x \<noteq> id') (students s)))"
        by simp
      with False show "stu_studentId x \<noteq> ?v" by metis
    qed
    have same: "\<forall>x\<in>set (students s). stu_id x = id' \<longrightarrow> stu_studentId (apply_patch p x) = ?v"
      using only by blast
    have "unique_studentId ?s'"
      unfolding unique_studentId_def using distinct_update_row [OF d u fresh same] by simp
    moreover have "pk_students ?s'"
    proof -
      from assms have b: "\<forall>x\<in>set (students s). stu_id x < students_seq s"
        by (simp add: constraints_hold_def pk_students_def list_all_iff)
      have "stu_id x' < students_seq s" if "x' \<in> set (map ?f (students s))" for x'
      proof -
        from that obtain x where x: "x \<in> set (students s)" and "x' = ?f x" by auto
        then have "stu_id x' = stu_id x" by simp
        with b x show ?thesis by simp
      qed
      then have bound: "list_all (\<lambda>x. stu_id x < students_seq s) (map ?f (students s))"
        unfolding list_all_iff by blast
      have st: "students ?s' = map ?f (students s)" "students_seq ?s' = students_seq s"
        by simp_all
      from d bound show ?thesis
        unfolding pk_students_def st ids by blast
    qed
    moreover have "student_id_fits ?s'"
      using assms False only
      by (auto simp: constraints_hold_def student_id_fits_def list_all_iff)
    moreover have "references_ok ?s'"
    proof -
      have "fk_ok ?s' r = fk_ok s r" for r
        unfolding fk_ok_def by (simp add: ids del: map_map set_map)
      then have "fk_ok ?s' = fk_ok s" by (rule ext)
      with assms show ?thesis
        by (simp add: constraints_hold_def references_ok_def)
    qed
    moreover from assms have "pk_sessions ?s'" "pk_attendanceRecords ?s'"
      by (simp_all add: constraints_hold_def pk_sessions_def pk_attendanceRecords_def)
    ultimately show ?thesis
      unfolding upd by (simp add: constraints_hold_def)
  qed
qed

lemma constraints_example_db: "constraints_hold example_db"
  by (simp add: constraints_hold_def pk_students_def pk_sessions_def pk_attendanceRecords_def
      unique_studentId_def student_id_fits_def references_ok_def fk_ok_def insert_fields_def
      sample_defs)

section \<open>Bulk replace\<close>

text \<open>
  C1, amended. For a non-empty batch \<open>r # rs\<close>, \<^verbatim>\<open>createBulkAttendance\<close> takes the target
  session from \<open>r\<close> and deletes every attendance record of that session, keeping all
  others; students and sessions are untouched. When every record of the batch references
  an existing student and an existing session, the whole batch is then inserted after the
  kept rows and returned: the new rows carry the field values of the batch in order, ids
  that are distinct and not among the ids that existed, and the time of the call. When
  some record references a missing row, the INSERT fails with a foreign-key violation
  after the DELETE: nothing is inserted and the target session is left without records.
\<close>

theorem createBulkAttendance_nonempty:
  assumes pk: "pk_attendanceRecords s"
  shows "case createBulkAttendance now (r # rs) s of (res, s') \<Rightarrow>
     students s' = students s \<and> sessions s' = sessions s \<and>
     (if list_all (fk_ok s) (r # rs)
      then \<exists>rows. res = Inr rows \<and>
             attendanceRecords s' =
               filter (\<lambda>a. att_sessionId a \<noteq> ins_sessionId r) (attendanceRecords s) @ rows \<and>
             map insert_fields rows = r # rs \<and>
             distinct (map att_id rows) \<and>
             set (map att_id rows) \<inter> set (map att_id (attendanceRecords s)) = {} \<and>
             list_all (\<lambda>a. att_recordedAt a = now) rows
      else res = Inl ForeignKeyViolation \<and>
           attendanceRecords s' =
             filter (\<lambda>a. att_sessionId a \<noteq> ins_sessionId r) (attendanceRecords s))"
proof -
  let ?n = "attendanceRecords_seq s"
  let ?rows = "new_rows now ?n (r # rs)"
  have fresh: "set (map att_id ?rows) \<inter> set (map att_id (attendanceRecords s)) = {}"
  proof -
    have "\<And>a. a \<in> set (attendanceRecords s) \<Longrightarrow> att_id a < ?n"
      using pk by (simp add: pk_attendanceRecords_def list_all_iff)
    moreover have "\<And>a. a \<in> set ?rows \<Longrightarrow> ?n \<le> att_id a"
      using att_id_new_rows [of _ now ?n "r # rs"] by blast
    ultimately show ?thesis by fastforce
  qed
  have stamp: "list_all (\<lambda>a. att_recordedAt a = now) ?rows"
    using recordedAt_new_rows [of _ now ?n "r # rs"] by (simp only: list_all_iff) blast
  have fields: "map insert_fields ?rows = r # rs"
    by (rule insert_fields_new_rows)
  have dist: "distinct (map att_id ?rows)"
    by (rule distinct_new_rows)
  show ?thesis
    using fresh stamp fields dist
    by (simp add: createBulkAttendance_def insert_attendanceRecords_def Let_def
        del: new_rows.simps)
      (simp add: delete_attendance_of_session_def del: new_rows.simps)
qed

theorem createBulkAttendance_nonempty_witness:
  "pk_attendanceRecords example_db \<and>
   (case createBulkAttendance 100 [example_record] example_db of (res, s') \<Rightarrow>
      res = Inr [new_row 100 4 example_record] \<and>
      attendanceRecords s' = [attendance_row 3 1 2 Present, new_row 100 4 example_record])"
  using createBulkAttendance_nonempty
    [where s = example_db and now = 100 and r = example_record and rs = "[]"]
  by (simp add: pk_attendanceRecords_def createBulkAttendance_def insert_attendanceRecords_def
      delete_attendance_of_session_def example_db_def example_record_def fk_ok_def Let_def
      attendance_row_def ann_def bob_def lecture1_def lecture2_def)

text \<open>
  C1 as stated fails for a batch that names a student who does not exist: the records of
  session 1 are deleted, the batch is not inserted and no record is returned.
\<close>

theorem createBulkAttendance_nonempty_counterexample:
  "fst (createBulkAttendance 100 [orphan_record] example_db) = Inl ForeignKeyViolation \<and>
   attendanceRecords (snd (createBulkAttendance 100 [orphan_record] example_db)) =
     [attendance_row 3 1 2 Present]"
  by (simp add: createBulkAttendance_def insert_attendanceRecords_def
      delete_attendance_of_session_def example_db_def orphan_record_def fk_ok_def Let_def
      attendance_row_def ann_def bob_def lecture1_def lecture2_def)

lemma getAttendanceBySession_insert:
  "getAttendanceBySession sid (snd (insert_attendanceRecords now records s)) =
     getAttendanceBySession sid s @
     (if list_all (fk_ok s) records
      then filter (\<lambda>a. att_sessionId a = sid) (new_rows now (attendanceRecords_seq s) records)
      else [])"
  by (simp add: insert_attendanceRecords_def getAttendanceBySession_def Let_def)

lemma getAttendanceBySession_delete_same [simp]:
  "getAttendanceBySession sid (delete_attendance_of_session sid s) = []"
  by (simp add: getAttendanceBySession_def delete_attendance_of_session_def)

lemma session_fields_after_bulk:
  "map insert_fields (getAttendanceBySession (ins_sessionId r)
        (snd (createBulkAttendance now (r # rs) s))) =
     (if list_all (fk_ok s) (r # rs)
      then filter (\<lambda>x. ins_sessionId x = ins_sessionId r) (r # rs) else [])"
proof -
  let ?sid = "ins_sessionId r"
  have "snd (createBulkAttendance now (r # rs) s) =
      snd (insert_attendanceRecords now (r # rs) (delete_attendance_of_session ?sid s))"
    by (simp add: createBulkAttendance_def)
  then have "map insert_fields
        (getAttendanceBySession ?sid (snd (createBulkAttendance now (r # rs) s))) =
      map insert_fields
        (if list_all (fk_ok s) (r # rs)
         then filter (\<lambda>a. att_sessionId a = ?sid)
                (new_rows now
                  (attendanceRecords_seq (delete_attendance_of_session ?sid s)) (r # rs))
         else [])"
    by (simp only: getAttendanceBySession_insert getAttendanceBySession_delete_same
        fk_ok_delete append_Nil)
  also have "\<dots> =
      (if list_all (fk_ok s) (r # rs) then filter (\<lambda>x. ins_sessionId x = ?sid) (r # rs) else [])"
    by (simp only: filter_new_rows if_distrib [of "map insert_fields"] list.map)
  finally show ?thesis .
qed

text \<open>
  C2, amended. Calling \<^verbatim>\<open>createBulkAttendance\<close> a second time with the same records, at any
  later time \<open>t2\<close>, leaves the target session with the same number of rows and the same
  studentId, sessionId, status and notes values, in the same order, as the first call
  did. The surrogate ids and the \<^verbatim>\<open>recordedAt\<close> timestamps are assigned anew by each call.
  With the empty batch both calls leave the store unchanged.
\<close>

theorem createBulkAttendance_idempotent:
  "case records of
     [] \<Rightarrow> snd (createBulkAttendance t2 records (snd (createBulkAttendance t1 records s))) =
            snd (createBulkAttendance t1 records s)
   | r # _ \<Rightarrow>
       map insert_fields (getAttendanceBySession (ins_sessionId r)
         (snd (createBulkAttendance t2 records (snd (createBulkAttendance t1 records s))))) =
       map insert_fields (getAttendanceBySession (ins_sessionId r)
         (snd (createBulkAttendance t1 records s))) \<and>
       length (getAttendanceBySession (ins_sessionId r)
         (snd (createBulkAttendance t2 records (snd (createBulkAttendance t1 records s))))) =
       length (getAttendanceBySession (ins_sessionId r) (snd (createBulkAttendance t1 records s)))"
proof (cases records)
  case Nil
  then show ?thesis by (simp add: createBulkAttendance_def)
next
  case (Cons r rs)
  let ?s1 = "snd (createBulkAttendance t1 (r # rs) s)"
  let ?s2 = "snd (createBulkAttendance t2 (r # rs) ?s1)"
  have eq: "map insert_fields (getAttendanceBySession (ins_sessionId r) ?s2) =
      map insert_fields (getAttendanceBySession (ins_sessionId r) ?s1)"
    by (simp only: session_fields_after_bulk fk_ok_bulk)
  from arg_cong [OF eq, of length]
  have "length (getAttendanceBySession (ins_sessionId r) ?s2) =
      length (getAttendanceBySession (ins_sessionId r) ?s1)"
    by simp
  with eq Cons show ?thesis by simp
qed

text \<open>
  C2 as stated fails on the \<^verbatim>\<open>recordedAt\<close> column: after a call at time 100 and a second
  call at time 200 the rows of session 1 differ, id aside, from those after the first
  call alone.
\<close>

theorem createBulkAttendance_idempotent_counterexample:
  "map fields_except_id (getAttendanceBySession 1
      (snd (createBulkAttendance 200 [example_record]
        (snd (createBulkAttendance 100 [example_record] example_db))))) \<noteq>
   map fields_except_id (getAttendanceBySession 1
      (snd (createBulkAttendance 100 [example_record] example_db)))"
  by (simp add: createBulkAttendance_def insert_attendanceRecords_def
      delete_attendance_of_session_def getAttendanceBySession_def example_db_def
      example_record_def fk_ok_def new_row_def fields_except_id_def insert_fields_def Let_def
      attendance_row_def ann_def bob_def lecture1_def lecture2_def)

text \<open>
  C3. For every store state, \<^verbatim>\<open>createBulkAttendance\<close> with the empty sequence returns the
  empty sequence and leaves the whole store as it was: no table and no sequence changes.
\<close>

theorem createBulkAttendance_empty:
  "createBulkAttendance now [] s = (Inr [], s)"
  by (simp add: createBulkAttendance_def)

subsection \<open>ORDER BY sorts and permutes\<close>

lemma mset_insert_by: "mset (insert_by le x xs) = add_mset x (mset xs)"
  by (induction xs) simp_all

lemma mset_order_by: "mset (order_by le xs) = mset xs"
  by (induction xs) (simp_all add: order_by_def mset_insert_by)

lemma set_insert_by: "set (insert_by le x xs) = insert x (set xs)"
  by (induction xs) auto

lemma set_order_by: "set (order_by le xs) = set xs"
  by (induction xs) (simp_all add: order_by_def set_insert_by)

lemma sorted_insert_by:
  assumes total: "\<And>a b. le a b \<or> le b a"
    and trans: "\<And>a b c. le a b \<Longrightarrow> le b c \<Longrightarrow> le a c"
  shows "sorted_wrt le xs \<Longrightarrow> sorted_wrt le (insert_by le x xs)"
proof (induction xs)
  case Nil
  show ?case by simp
next
  case (Cons y ys)
  show ?case
  proof (cases "le x y")
    case True
    with Cons.prems trans have "\<forall>z\<in>set ys. le x z" by auto
    with True Cons.prems show ?thesis by simp
  next
    case False
    with total have "le y x" by blast
    with False Cons show ?thesis by (simp add: set_insert_by)
  qed
qed

lemma sorted_order_by:
  assumes "\<And>a b. le a b \<or> le b a" and "\<And>a b c. le a b \<Longrightarrow> le b c \<Longrightarrow> le a c"
  shows "sorted_wrt le (order_by le xs)"
proof (induction xs)
  case Nil
  show ?case by (simp add: order_by_def)
next
  case (Cons x xs)
  from sorted_insert_by [of le, OF assms Cons.IH]
  show ?case by (simp add: order_by_def)
qed

lemma by_date_desc_lastName_total:
  "by_date_desc_lastName a b \<or> by_date_desc_lastName b a"
  unfolding by_date_desc_lastName_def
  using less_linear [of "ses_date (session a)" "ses_date (session b)"]
    linear [of "stu_lastName (student a)" "stu_lastName (student b)"]
  by auto

lemma by_date_desc_lastName_trans:
  "by_date_desc_lastName a b \<Longrightarrow> by_date_desc_lastName b c \<Longrightarrow> by_date_desc_lastName a c"
  unfolding by_date_desc_lastName_def
  using less_trans [of "ses_date (session c)" "ses_date (session b)" "ses_date (session a)"]
    order_trans [of "stu_lastName (student a)" "stu_lastName (student b)" "stu_lastName (student c)"]
  by auto

subsection \<open>Inner joins on a primary key\<close>

lemma join_no_match:
  "\<forall>x\<in>set xs. key x \<noteq> k \<Longrightarrow> concat (map (\<lambda>x. if k = key x then h x else []) xs) = []"
  by (induction xs) auto

lemma join_on_key:
  "distinct (map key xs) \<Longrightarrow>
   concat (map (\<lambda>x. if k = key x then h x else []) xs) =
     (case find (\<lambda>x. key x = k) xs of None \<Rightarrow> [] | Some x \<Rightarrow> h x)"
proof (induction xs)
  case Nil
  show ?case by simp
next
  case (Cons y ys)
  show ?case
  proof (cases "key y = k")
    case True
    with Cons.prems have "\<forall>x\<in>set ys. key x \<noteq> k" by (auto simp: image_iff)
    from join_no_match [OF this] True show ?thesis by simp
  next
    case False
    with Cons show ?thesis by auto
  qed
qed

lemma filter_other_keys:
  "distinct (map key xs) \<Longrightarrow> x \<in> set xs \<Longrightarrow> filter (\<lambda>y. key y \<noteq> key x) xs = remove1 x xs"
proof (induction xs)
  case Nil
  then show ?case by simp
next
  case (Cons y ys)
  show ?case
  proof (cases "y = x")
    case True
    with Cons.prems have "\<forall>z\<in>set ys. key z \<noteq> key x" by (auto simp: image_iff)
    then have "filter (\<lambda>z. key z \<noteq> key x) ys = ys" by (simp add: filter_id_conv)
    with True show ?thesis by simp
  next
    case False
    with Cons.prems have "x \<in> set ys" and "key y \<noteq> key x" by (auto simp: image_iff)
    with Cons False show ?thesis by simp
  qed
qed

lemma row_parts_with_refs: "row_parts (with_refs a st se) = (a, st, se)"
  by (simp add: row_parts_def attendance_of_def with_refs_def)

lemma row_parts_attendance_join:
  assumes "pk_students s" and "pk_sessions s"
  shows "map row_parts (attendance_join s) = records_with_refs s"
proof -
  have st: "distinct (map stu_id (students s))" and se: "distinct (map ses_id (sessions s))"
    using assms by (simp_all add: pk_students_def pk_sessions_def)
  have join: "attendance_join s =
      concat (map (\<lambda>a.
        case find (\<lambda>x. stu_id x = att_studentId a) (students s) of
          None \<Rightarrow> []
        | Some st \<Rightarrow>
            (case find (\<lambda>x. ses_id x = att_sessionId a) (sessions s) of
               None \<Rightarrow> []
             | Some se \<Rightarrow> [with_refs a st se])) (attendanceRecords s))"
    unfolding attendance_join_def
    by (simp add: join_on_key [OF st] join_on_key [OF se] cong: option.case_cong)
  have each: "map row_parts
        (case fs of None \<Rightarrow> []
         | Some st \<Rightarrow> (case fe of None \<Rightarrow> [] | Some se \<Rightarrow> [with_refs a st se])) =
      (case (fs, fe) of (Some st, Some se) \<Rightarrow> [(a, st, se)] | _ \<Rightarrow> [])" for a fs fe
    by (simp add: row_parts_with_refs split: option.splits)
  show ?thesis
    unfolding join records_with_refs_def
    by (simp only: map_concat map_map comp_def each)
qed

section \<open>Listing attendance records\<close>

text \<open>
  C6. In a store whose student and session ids are primary keys,
  \<^verbatim>\<open>getAttendanceRecords\<close> returns exactly the attendance records whose referenced student
  and session both exist, each once: every returned row carries the six columns of its
  attendance record unchanged, together with the student whose id is the record's
  \<^verbatim>\<open>studentId\<close> and the session whose id is its \<^verbatim>\<open>sessionId\<close>. A record with a missing
  reference is left out and nothing fails. The rows are ordered by session date
  descending, then student lastName ascending.
\<close>

theorem getAttendanceRecords_inner_join:
  assumes "pk_students s" and "pk_sessions s"
  shows "mset (map row_parts (getAttendanceRecords s)) = mset (records_with_refs s) \<and>
         sorted_wrt
           (\<lambda>x y. ses_date (session y) < ses_date (session x) \<or>
                  ses_date (session x) = ses_date (session y) \<and>
                  stu_lastName (student x) \<le> stu_lastName (student y))
           (getAttendanceRecords s)"
proof
  have "mset (map row_parts (getAttendanceRecords s)) =
      image_mset row_parts (mset (getAttendanceRecords s))"
    by simp
  also have "\<dots> = image_mset row_parts (mset (attendance_join s))"
    by (simp only: getAttendanceRecords_def mset_order_by)
  also have "\<dots> = mset (map row_parts (attendance_join s))"
    by simp
  finally show "mset (map row_parts (getAttendanceRecords s)) = mset (records_with_refs s)"
    by (simp only: row_parts_attendance_join [OF assms])
  have "sorted_wrt by_date_desc_lastName (getAttendanceRecords s)"
    unfolding getAttendanceRecords_def
    by (rule sorted_order_by [OF by_date_desc_lastName_total by_date_desc_lastName_trans])
  then show "sorted_wrt
      (\<lambda>x y. ses_date (session y) < ses_date (session x) \<or>
             ses_date (session x) = ses_date (session y) \<and>
             stu_lastName (student x) \<le> stu_lastName (student y))
      (getAttendanceRecords s)"
    by (simp only: by_date_desc_lastName_def [abs_def])
qed

theorem getAttendanceRecords_inner_join_witness:
  "pk_students orphan_db \<and> pk_sessions orphan_db \<and>
   map row_parts (getAttendanceRecords orphan_db) =
     [(attendance_row 3 1 2 Present, ann, lecture2),
      (attendance_row 2 2 1 Late, bob, lecture1),
      (attendance_row 1 1 1 Absent, ann, lecture1)] \<and>
   mset (map row_parts (getAttendanceRecords orphan_db)) = mset (records_with_refs orphan_db)"
proof -
  have pk: "pk_students orphan_db" "pk_sessions orphan_db"
    by (simp_all add: pk_students_def pk_sessions_def sample_defs)
  have "map row_parts (getAttendanceRecords orphan_db) =
      [(attendance_row 3 1 2 Present, ann, lecture2),
       (attendance_row 2 2 1 Late, bob, lecture1),
       (attendance_row 1 1 1 Absent, ann, lecture1)]"
    by (simp add: getAttendanceRecords_def attendance_join_def order_by_def with_refs_def
        by_date_desc_lastName_def row_parts_def attendance_of_def sample_defs)
  with pk getAttendanceRecords_inner_join [OF pk] show ?thesis by simp
qed

section \<open>Deleting a student\<close>

lemma att_studentId_with_refs [simp]: "att_studentId (with_refs a st se) = att_studentId a"
  by (simp add: with_refs_def)

lemma rows_of_studentId:
  "row \<in> set (rows_of a sts ses) \<Longrightarrow>
     att_studentId row = att_studentId a \<and> att_studentId row \<in> stu_id ` set sts"
proof -
  assume "row \<in> set (rows_of a sts ses)"
  then obtain st se where "st \<in> set sts" and "att_studentId a = stu_id st"
    and "row = with_refs a st se"
    by (auto split: if_splits)
  then show ?thesis by simp
qed

lemma join_filter_matching:
  "(\<And>x. c x \<Longrightarrow> P x) \<Longrightarrow>
   concat (map (\<lambda>x. if c x then h x else []) (filter P xs)) =
   concat (map (\<lambda>x. if c x then h x else []) xs)"
  by (induction xs) auto

lemma rows_of_filter_students:
  "att_studentId a \<noteq> i \<Longrightarrow>
     rows_of a (filter (\<lambda>x. stu_id x \<noteq> i) sts) ses = rows_of a sts ses"
  by (rule join_filter_matching) simp

lemma join_after_delete:
  "concat (map (\<lambda>a. rows_of a (filter (\<lambda>x. stu_id x \<noteq> i) sts) ses)
       (filter (\<lambda>a. att_studentId a \<noteq> i) as)) =
   filter (\<lambda>row. att_studentId row \<noteq> i) (concat (map (\<lambda>a. rows_of a sts ses) as))"
proof (induction as)
  case Nil
  show ?case by simp
next
  case (Cons a as)
  show ?case
  proof (cases "att_studentId a = i")
    case True
    have "\<not> att_studentId row \<noteq> i" if "row \<in> set (rows_of a sts ses)" for row
      using rows_of_studentId [OF that] True by simp
    then have "\<forall>row\<in>set (rows_of a sts ses). \<not> att_studentId row \<noteq> i" ..
    then have "filter (\<lambda>row. att_studentId row \<noteq> i) (rows_of a sts ses) = []"
      by (simp only: filter_empty_conv)
    with True Cons.IH show ?thesis by (simp del: concat_map_singleton)
  next
    case False
    have "att_studentId row \<noteq> i" if "row \<in> set (rows_of a sts ses)" for row
      using rows_of_studentId [OF that] False by simp
    then have "\<forall>row\<in>set (rows_of a sts ses). att_studentId row \<noteq> i" ..
    then have "filter (\<lambda>row. att_studentId row \<noteq> i) (rows_of a sts ses) = rows_of a sts ses"
      by (simp only: filter_id_conv)
    with False Cons.IH rows_of_filter_students [OF False] show ?thesis by simp
  qed
qed

lemma join_without_student:
  assumes "\<forall>x\<in>set sts. stu_id x \<noteq> i"
  shows "filter (\<lambda>row. att_studentId row \<noteq> i) (concat (map (\<lambda>a. rows_of a sts ses) as)) =
         concat (map (\<lambda>a. rows_of a sts ses) as)"
proof -
  have "att_studentId row \<noteq> i" if "row \<in> set (concat (map (\<lambda>a. rows_of a sts ses) as))" for row
  proof -
    from that obtain a where "row \<in> set (rows_of a sts ses)" by auto
    from rows_of_studentId [OF this] assms show ?thesis by (simp add: image_iff) metis
  qed
  then show ?thesis unfolding filter_id_conv by blast
qed

lemma attendance_join_deleteStudent:
  "attendance_join (snd (deleteStudent id' s)) =
     filter (\<lambda>row. att_studentId row \<noteq> id') (attendance_join s)"
proof (cases "filter (\<lambda>x. stu_id x = id') (students s) = []")
  case True
  then have none: "\<forall>x\<in>set (students s). stu_id x \<noteq> id'"
    by (simp add: filter_empty_conv)
  then have same: "filter (\<lambda>x. stu_id x \<noteq> id') (students s) = students s"
    by (simp add: filter_id_conv)
  from True same have "students (snd (deleteStudent id' s)) = students s"
    and "sessions (snd (deleteStudent id' s)) = sessions s"
    and "attendanceRecords (snd (deleteStudent id' s)) = attendanceRecords s"
    by (simp_all add: deleteStudent_def)
  then show ?thesis
    unfolding attendance_join_def by (simp only: join_without_student [OF none])
next
  case False
  then have "students (snd (deleteStudent id' s)) = filter (\<lambda>x. stu_id x \<noteq> id') (students s)"
    and "sessions (snd (deleteStudent id' s)) = sessions s"
    and "attendanceRecords (snd (deleteStudent id' s)) =
      filter (\<lambda>a. att_studentId a \<noteq> id') (attendanceRecords s)"
    by (simp_all add: deleteStudent_def)
  then show ?thesis
    unfolding attendance_join_def by (simp only: join_after_delete)
qed

text \<open>
  C7. In a store whose student ids are a primary key, \<^verbatim>\<open>deleteStudent\<close> of the id of an
  existing student \<open>x\<close> that has \<open>N\<close> attendance records returns true and removes \<open>x\<close> and
  exactly those \<open>N\<close> records: the other students, the attendance records of other
  students, every session and the sequences are unchanged. The listing of attendance
  records afterwards is the listing before without the rows of that student.
\<close>

theorem deleteStudent_cascade:
  assumes pk: "pk_students s" and x: "x \<in> set (students s)"
    and N: "N = length (filter (\<lambda>a. att_studentId a = stu_id x) (attendanceRecords s))"
  shows "case deleteStudent (stu_id x) s of (deleted, s') \<Rightarrow>
     deleted \<and>
     students s' = remove1 x (students s) \<and>
     sessions s' = sessions s \<and>
     attendanceRecords s' =
       filter (\<lambda>a. att_studentId a \<noteq> stu_id x) (attendanceRecords s) \<and>
     length (attendanceRecords s') + N = length (attendanceRecords s) \<and>
     students_seq s' = students_seq s \<and> sessions_seq s' = sessions_seq s \<and>
     attendanceRecords_seq s' = attendanceRecords_seq s \<and>
     mset (getAttendanceRecords s') =
       filter_mset (\<lambda>row. att_studentId row \<noteq> stu_id x) (mset (getAttendanceRecords s)) \<and>
     (\<forall>row\<in>set (getAttendanceRecords s'). att_studentId row \<noteq> stu_id x)"
proof -
  let ?i = "stu_id x"
  let ?s' = "snd (deleteStudent ?i s)"
  from x have ne: "filter (\<lambda>y. stu_id y = ?i) (students s) \<noteq> []"
    by (auto simp: filter_empty_conv)
  have "distinct (map stu_id (students s))"
    using pk by (simp add: pk_students_def)
  then have rm: "filter (\<lambda>y. stu_id y \<noteq> ?i) (students s) = remove1 x (students s)"
    using x by (rule filter_other_keys)
  have len: "length (filter (\<lambda>a. att_studentId a \<noteq> ?i) (attendanceRecords s)) + N =
      length (attendanceRecords s)"
    unfolding N using sum_length_filter_compl [of "\<lambda>a. att_studentId a = ?i" "attendanceRecords s"]
    by simp
  have listing: "mset (getAttendanceRecords ?s') =
      filter_mset (\<lambda>row. att_studentId row \<noteq> ?i) (mset (getAttendanceRecords s))"
    by (simp add: getAttendanceRecords_def mset_order_by attendance_join_deleteStudent)
  have "set (getAttendanceRecords ?s') =
      {row \<in> set (getAttendanceRecords s). att_studentId row \<noteq> ?i}"
    using arg_cong [OF listing, of set_mset] by simp
  then have excl: "\<forall>row\<in>set (getAttendanceRecords ?s'). att_studentId row \<noteq> ?i"
    by blast
  have s': "deleteStudent ?i s = (fst (deleteStudent ?i s), ?s')" by simp
  show ?thesis
    using ne rm len listing excl
    by (subst s') (simp add: deleteStudent_def Let_def)
qed

theorem deleteStudent_cascade_witness:
  "pk_students example_db \<and> ann \<in> set (students example_db) \<and>
   (case deleteStudent 1 example_db of (deleted, s') \<Rightarrow>
      deleted \<and> students s' = [bob] \<and> attendanceRecords s' = [attendance_row 2 2 1 Late] \<and>
      length (attendanceRecords s') + 2 = length (attendanceRecords example_db))"
proof -
  have pk: "pk_students example_db"
    by (simp add: pk_students_def sample_defs)
  have x: "ann \<in> set (students example_db)"
    by (simp add: sample_defs)
  have N: "2 = length (filter (\<lambda>a. att_studentId a = stu_id ann) (attendanceRecords example_db))"
    by (simp add: sample_defs)
  have i: "stu_id ann = 1" by (simp add: ann_def)
  from deleteStudent_cascade [OF pk x N] pk x show ?thesis
    by (simp add: i split_beta) (simp add: sample_defs)
qed

section \<open>Dashboard: today's attendance\<close>

lemma count_of_set_count:
  "count_of st (set_count (st', n) t) = (if st = st' then n else count_of st t)"
  by (cases st; cases st') simp_all

lemma count_of_fold:
  "distinct ks \<Longrightarrow>
   count_of st (fold set_count (map (\<lambda>k. (k, f k)) ks) t) =
     (if st \<in> set ks then f st else count_of st t)"
proof (induction ks arbitrary: t)
  case Nil
  show ?case by simp
next
  case (Cons k ks)
  then show ?case by (auto simp: count_of_set_count)
qed

lemma find_on_key:
  "distinct (map key xs) \<Longrightarrow> find (\<lambda>x. key x = k) xs = Some x \<Longrightarrow>
     (\<exists>y\<in>set xs. key y = k \<and> Q y) \<longleftrightarrow> Q x"
proof -
  assume d: "distinct (map key xs)" and f: "find (\<lambda>x. key x = k) xs = Some x"
  from f have x: "x \<in> set xs" "key x = k"
    by (auto simp: find_Some_iff)
  from d have "inj_on key (set xs)"
    by (simp add: distinct_map)
  then have "y = x" if "y \<in> set xs" "key y = k" for y
    using that x by (simp add: inj_on_def)
  with x show ?thesis by blast
qed

lemma concat_map_if: "concat (map (\<lambda>a. if P a then [f a] else []) xs) = map f (filter P xs)"
  by (induction xs) simp_all

lemma today_statuses_eq:
  assumes "pk_sessions s"
  shows "today_statuses today s = map att_status (filter (on_date today s) (attendanceRecords s))"
proof -
  have d: "distinct (map ses_id (sessions s))"
    using assms by (simp add: pk_sessions_def)
  have one: "concat (map (\<lambda>se. if att_sessionId a = ses_id se
                 then if ses_date se = today then [att_status a] else [] else []) (sessions s)) =
      (if on_date today s a then [att_status a] else [])" for a
  proof (cases "find (\<lambda>se. ses_id se = att_sessionId a) (sessions s)")
    case None
    then have "\<not> on_date today s a"
      by (auto simp: find_None_iff on_date_def)
    with None show ?thesis by (simp add: join_on_key [OF d])
  next
    case (Some se)
    from find_on_key [OF d Some, of "\<lambda>se. ses_date se = today"]
    have "on_date today s a \<longleftrightarrow> ses_date se = today"
      by (simp add: on_date_def)
    with Some show ?thesis by (simp add: join_on_key [OF d])
  qed
  show ?thesis
    unfolding today_statuses_def by (simp only: one concat_map_if)
qed

lemma count_list_map_filter:
  "count_list (map f xs) v = length (filter (\<lambda>a. f a = v) xs)"
  by (induction xs) simp_all

lemma length_by_status:
  "length (filter (\<lambda>a. att_status a = Present \<and> P a) xs) +
   length (filter (\<lambda>a. att_status a = Absent \<and> P a) xs) +
   length (filter (\<lambda>a. att_status a = Late \<and> P a) xs) +
   length (filter (\<lambda>a. att_status a = Excused \<and> P a) xs) = length (filter P xs)"
proof (induction xs)
  case Nil
  show ?case by simp
next
  case (Cons a xs)
  then show ?case by (cases "att_status a") simp_all
qed

lemma count_of_todayAttendance:
  assumes "pk_sessions s"
  shows "count_of st (todayAttendance (getDashboardStats today s)) = today_count today s st"
proof -
  let ?sts = "today_statuses today s"
  let ?zero = "\<lparr>present = 0, absent = 0, late = 0, excused = 0\<rparr>"
  have "todayAttendance (getDashboardStats today s) =
      fold set_count (map (\<lambda>k. (k, count_list ?sts k)) (remdups ?sts)) ?zero"
    by (simp add: getDashboardStats_def todayRecords_def Let_def)
  then have "count_of st (todayAttendance (getDashboardStats today s)) =
      (if st \<in> set (remdups ?sts) then count_list ?sts st else count_of st ?zero)"
    by (simp only: count_of_fold [OF distinct_remdups])
  also have "count_of st ?zero = 0"
    by (cases st) simp_all
  finally have "count_of st (todayAttendance (getDashboardStats today s)) =
      (if st \<in> set (remdups ?sts) then count_list ?sts st else 0)" .
  also have "\<dots> = count_list ?sts st"
    by (simp add: count_list_0_iff)
  also have "\<dots> = today_count today s st"
    by (simp add: today_statuses_eq [OF assms] count_list_map_filter today_count_def conj_commute)
  finally show ?thesis .
qed

text \<open>
  C5. In a store whose session ids are a primary key, \<^verbatim>\<open>todayAttendance\<close> has the four keys
  present, absent, late and excused; each holds the number of attendance records of that
  status whose referenced session's date is today (0 when none matches), and the four
  sum to the number of attendance records whose referenced session's date is today.
\<close>

theorem todayAttendance_counts:
  assumes "pk_sessions s"
  shows "present (todayAttendance (getDashboardStats today s)) = today_count today s Present \<and>
         absent (todayAttendance (getDashboardStats today s)) = today_count today s Absent \<and>
         late (todayAttendance (getDashboardStats today s)) = today_count today s Late \<and>
         excused (todayAttendance (getDashboardStats today s)) = today_count today s Excused \<and>
         present (todayAttendance (getDashboardStats today s)) +
         absent (todayAttendance (getDashboardStats today s)) +
         late (todayAttendance (getDashboardStats today s)) +
         excused (todayAttendance (getDashboardStats today s)) =
           length (filter (on_date today s) (attendanceRecords s))"
proof -
  let ?t = "todayAttendance (getDashboardStats today s)"
  have each: "present ?t = today_count today s Present" "absent ?t = today_count today s Absent"
    "late ?t = today_count today s Late" "excused ?t = today_count today s Excused"
    using count_of_todayAttendance [OF assms, of Present today]
      count_of_todayAttendance [OF assms, of Absent today]
      count_of_todayAttendance [OF assms, of Late today]
      count_of_todayAttendance [OF assms, of Excused today]
    by simp_all
  have "today_count today s Present + today_count today s Absent + today_count today s Late +
      today_count today s Excused = length (filter (on_date today s) (attendanceRecords s))"
    unfolding today_count_def by (rule length_by_status)
  with each show ?thesis by simp
qed

theorem todayAttendance_counts_witness:
  "pk_sessions orphan_db \<and>
   present (todayAttendance (getDashboardStats (2024, 1, 10) orphan_db)) = 1 \<and>
   absent (todayAttendance (getDashboardStats (2024, 1, 10) orphan_db)) = 1 \<and>
   late (todayAttendance (getDashboardStats (2024, 1, 10) orphan_db)) = 1 \<and>
   excused (todayAttendance (getDashboardStats (2024, 1, 10) orphan_db)) = 0 \<and>
   length (filter (on_date (2024, 1, 10) orphan_db) (attendanceRecords orphan_db)) = 3"
proof -
  have pk: "pk_sessions orphan_db"
    by (simp add: pk_sessions_def sample_defs)
  have "today_count (2024, 1, 10) orphan_db Present = 1"
    and "today_count (2024, 1, 10) orphan_db Absent = 1"
    and "today_count (2024, 1, 10) orphan_db Late = 1"
    and "today_count (2024, 1, 10) orphan_db Excused = 0"
    by (simp_all add: today_count_def on_date_def sample_defs)
  with pk todayAttendance_counts [OF pk, of "(2024, 1, 10)"] show ?thesis by simp
qed

section \<open>Request handlers\<close>

lemma parse_records_fails:
  "j \<in> set js \<Longrightarrow> isl (createAttendanceSchema_parse j) \<Longrightarrow> isl (parse_records i js)"
proof (induction js arbitrary: i)
  case Nil
  then show ?case by simp
next
  case (Cons x xs)
  show ?case
  proof (cases "x = j")
    case True
    with Cons.prems show ?thesis
      by (cases "createAttendanceSchema_parse j"; cases "parse_records (i + 1) xs") simp_all
  next
    case False
    with Cons have "isl (parse_records (i + 1) xs)" by simp
    then show ?thesis
      by (cases "createAttendanceSchema_parse x"; cases "parse_records (i + 1) xs") simp_all
  qed
qed

lemma createAttendanceSchema_parse_fails:
  assumes "map_of members ''studentId'' = None \<or> map_of members ''sessionId'' = None \<or>
    map_of members ''status'' \<notin>
      Some ` JString ` {''present'', ''absent'', ''late'', ''excused''}"
  shows "isl (createAttendanceSchema_parse (JObject members))"
proof -
  have "z_int (map_of members ''studentId'') = None \<or> z_int (map_of members ''sessionId'') = None \<or>
      z_status (map_of members ''status'') = None"
    using assms
  proof (elim disjE)
    assume "map_of members ''status'' \<notin>
      Some ` JString ` {''present'', ''absent'', ''late'', ''excused''}"
    then have "z_status (map_of members ''status'') = None"
      by (cases "(map_of members ''status'')" rule: z_status.cases) (auto split: if_splits)
    then show ?thesis by simp
  qed simp_all
  then show ?thesis
    by (auto simp: createAttendanceSchema_parse_def Let_def split: option.splits)
qed

text \<open>
  C10. When the \<^verbatim>\<open>records\<close> array of a bulk request holds a record that fails
  \<^verbatim>\<open>createAttendanceSchema\<close>, as a record does that lacks \<^verbatim>\<open>studentId\<close> or \<^verbatim>\<open>sessionId\<close> or
  whose \<^verbatim>\<open>status\<close> is not one of the four values, \<^verbatim>\<open>POST /api/attendance/bulk\<close> answers
  400 and the store is the one before the request: the storage layer is not called,
  nothing is deleted and nothing is inserted.
\<close>

theorem post_attendance_bulk_invalid:
  assumes records: "map_of kvs ''records'' = Some (JArray js)" and j: "j \<in> set js"
    and invalid: "isl (createAttendanceSchema_parse j) \<or>
      (\<exists>members. j = JObject members \<and>
        (map_of members ''studentId'' = None \<or> map_of members ''sessionId'' = None \<or>
         map_of members ''status'' \<notin>
           Some ` JString ` {''present'', ''absent'', ''late'', ''excused''}))"
  shows "status (fst (post_attendance_bulk now (JObject kvs) s)) = 400 \<and>
         snd (post_attendance_bulk now (JObject kvs) s) = s"
proof -
  from invalid have "isl (createAttendanceSchema_parse j)"
    using createAttendanceSchema_parse_fails by blast
  from parse_records_fails [OF j this, of 0] obtain es where "parse_records 0 js = Inl es"
    by (cases "parse_records 0 js") simp_all
  with records show ?thesis
    by (simp add: post_attendance_bulk_def bulkAttendanceSchema_parse_def)
qed

theorem post_attendance_bulk_invalid_witness:
  "post_attendance_bulk 100 bulk_body_missing_studentId example_db =
     (\<lparr>status = 400, body = Issues [[Key ''records'', Index 1, Key ''studentId'']]\<rparr>,
      example_db)"
proof -
  let ?bad = "[(''sessionId'', JNumber 1), (''status'', JString ''late'')]"
  let ?good = "[(''studentId'', JNumber 1), (''sessionId'', JNumber 1),
      (''status'', JString ''present'')]"
  have "map_of ?bad ''studentId'' = None" by simp
  then have "status (fst (post_attendance_bulk 100
        (JObject [(''records'', JArray [JObject ?good, JObject ?bad])]) example_db)) = 400 \<and>
      snd (post_attendance_bulk 100
        (JObject [(''records'', JArray [JObject ?good, JObject ?bad])]) example_db) = example_db"
    by (intro post_attendance_bulk_invalid [where j = "JObject ?bad"]) auto
  then show ?thesis
    by (simp add: bulk_body_missing_studentId_def post_attendance_bulk_def
        bulkAttendanceSchema_parse_def createAttendanceSchema_parse_def issue_at_def
        null_or_missing_def)
qed

lemma one_row_with_key:
  "distinct (map key xs) \<Longrightarrow> k \<in> set (map key xs) \<Longrightarrow>
     length (filter (\<lambda>x. key x = k) xs) = 1"
proof (induction xs)
  case Nil
  then show ?case by simp
next
  case (Cons y ys)
  show ?case
  proof (cases "key y = k")
    case True
    with Cons.prems have "\<forall>x\<in>set ys. key x \<noteq> k" by (auto simp: image_iff)
    then have "filter (\<lambda>x. key x = k) ys = []" by (simp add: filter_empty_conv)
    with True show ?thesis by simp
  next
    case False
    with Cons show ?thesis by auto
  qed
qed

lemma length_filter_order_by:
  "length (filter P (order_by le xs)) = length (filter P xs)"
  by (metis mset_filter mset_order_by size_mset)

text \<open>
  C8, amended. In a store where \<^verbatim>\<open>student_id\<close> is unique (and fits its
  \<^verbatim>\<open>varchar(50)\<close> column), a valid create request whose studentId some student already
  has fails in the storage layer with the unique violation; the handler catches it as any
  other error and answers 500 with the message \<^verbatim>\<open>Failed to create student\<close>. No student
  row is added or changed, and the student list afterwards has exactly one row with that
  studentId.
\<close>

theorem post_students_duplicate:
  assumes valid: "createStudentSchema_parse is_email reqBody = Inr v"
    and dup: "new_studentId v \<in> set (map stu_studentId (students s))"
    and uniq: "unique_studentId s" and fits: "student_id_fits s"
  shows "fst (createStudent v s) = Inl UniqueViolation \<and>
         fst (post_students is_email reqBody s) =
           \<lparr>status = 500, body = Message ''Failed to create student''\<rparr> \<and>
         students (snd (post_students is_email reqBody s)) = students s \<and>
         length (filter (\<lambda>x. stu_studentId x = new_studentId v)
           (getStudents (snd (post_students is_email reqBody s)))) = 1"
proof -
  from dup fits have len: "\<not> 50 < length (new_studentId v)"
    by (auto simp: student_id_fits_def list_all_iff)
  with dup have create: "createStudent v s =
      (Inl UniqueViolation, s\<lparr>students_seq := students_seq s + 1\<rparr>)"
    by (simp add: createStudent_def Let_def)
  with valid have post: "post_students is_email reqBody s =
      (\<lparr>status = 500, body = Message ''Failed to create student''\<rparr>,
       s\<lparr>students_seq := students_seq s + 1\<rparr>)"
    by (simp add: post_students_def)
  from uniq dup have "length (filter (\<lambda>x. stu_studentId x = new_studentId v) (students s)) = 1"
    unfolding unique_studentId_def by (rule one_row_with_key)
  with create post show ?thesis
    by (simp add: getStudents_def length_filter_order_by)
qed

theorem post_students_duplicate_witness:
  "createStudentSchema_parse like_email duplicate_student_body = Inr duplicate_student \<and>
   new_studentId duplicate_student \<in> set (map stu_studentId (students example_db)) \<and>
   unique_studentId example_db \<and> student_id_fits example_db \<and>
   fst (createStudent duplicate_student example_db) = Inl UniqueViolation \<and>
   fst (post_students like_email duplicate_student_body example_db) =
     \<lparr>status = 500, body = Message ''Failed to create student''\<rparr> \<and>
   students (snd (post_students like_email duplicate_student_body example_db)) = [ann, bob]"
proof -
  have valid: "createStudentSchema_parse like_email duplicate_student_body = Inr duplicate_student"
    by (simp add: createStudentSchema_parse_def duplicate_student_body_def duplicate_student_def
        like_email_def null_or_missing_def)
  have dup: "new_studentId duplicate_student \<in> set (map stu_studentId (students example_db))"
    by (simp add: duplicate_student_def sample_defs)
  have uniq: "unique_studentId example_db" and fits: "student_id_fits example_db"
    by (simp_all add: unique_studentId_def student_id_fits_def sample_defs)
  have "students example_db = [ann, bob]"
    by (simp add: example_db_def)
  with post_students_duplicate [OF valid dup uniq fits] valid dup uniq fits
  show ?thesis by simp
qed

text \<open>
  C8 as stated fails: the response to the duplicate create is 500, not a client error.
\<close>

theorem post_students_duplicate_counterexample:
  "status (fst (post_students like_email duplicate_student_body example_db)) = 500"
  by (simp add: post_students_def createStudentSchema_parse_def createStudent_def
      duplicate_student_body_def like_email_def null_or_missing_def student_row_def Let_def
      sample_defs)

text \<open>
  C9. \<^verbatim>\<open>updateStudentSchema\<close> accepts the empty object, as it accepts any subset of the
  fields; but \<^verbatim>\<open>updateStudent\<close> with no value to set throws in the query builder, for an
  existing id as for any other, and \<^verbatim>\<open>PATCH /api/students/:id\<close> answers 500. The store
  is unchanged.
\<close>

theorem patch_students_empty_object:
  "updateStudentSchema_parse is_email (JObject []) =
     Inr \<lparr>set_studentId = None, set_firstName = None, set_lastName = None, set_email = None,
          set_photoUrl = None\<rparr> \<and>
   patch_students is_email id' (JObject []) s =
     (\<lparr>status = 500, body = Message ''Failed to update student''\<rparr>, s)"
  by (simp add: patch_students_def updateStudentSchema_parse_def updateStudent_def no_values_def)

section \<open>Dashboard: overall attendance rate\<close>

lemma round_half_even_near: "\<bar>of_int (round_half_even x) - x\<bar> \<le> 1 / 2"
proof -
  have "of_int \<lfloor>x\<rfloor> \<le> x" and "x < of_int \<lfloor>x\<rfloor> + 1"
    by linarith+
  then show ?thesis
    by (auto simp: round_half_even_def Let_def)
qed

lemma bitlen_powi:
  assumes "0 < a"
  shows "(2::rat) powi (bitlen a - 1) \<le> of_int a" and "of_int a < (2::rat) powi (bitlen a)"
proof -
  from bitlen_bounds [OF assms] have lo: "2 ^ nat (bitlen a - 1) \<le> a" and hi: "a < 2 ^ nat (bitlen a)"
    by simp_all
  from assms have pos: "1 \<le> bitlen a"
    by (simp add: bitlen_alt_def)
  have "(2::rat) powi (bitlen a - 1) = 2 ^ nat (bitlen a - 1)"
    using pos by (simp add: power_int_def)
  also have "\<dots> = of_int (2 ^ nat (bitlen a - 1))" by simp
  also have "\<dots> \<le> of_int a" using lo by (simp only: of_int_le_iff)
  finally show "(2::rat) powi (bitlen a - 1) \<le> of_int a" .
  have "(of_int a :: rat) < of_int (2 ^ nat (bitlen a))" using hi by (simp only: of_int_less_iff)
  also have "\<dots> = 2 ^ nat (bitlen a)" by simp
  also have "\<dots> = 2 powi (bitlen a)" using pos by (simp add: power_int_def)
  finally show "of_int a < (2::rat) powi (bitlen a)" .
qed

lemma ilog2_bounds:
  assumes "0 < x"
  shows "2 powi (ilog2 x) \<le> x \<and> x < 2 powi (ilog2 x + 1)"
proof -
  obtain a b where q: "quotient_of x = (a, b)" by (cases "quotient_of x")
  then have b: "0 < b" and x: "x = of_int a / of_int b"
    by (simp_all add: quotient_of_denom_pos quotient_of_div)
  with assms have a: "0 < a"
    by (simp add: zero_less_divide_iff)
  let ?d = "bitlen a - bitlen b"
  have xb: "x * of_int b = of_int a" using x b by simp
  have "x * of_int b < (2::rat) powi (bitlen a)"
    using bitlen_powi(2) [OF a] xb by simp
  also have "\<dots> = 2 powi (?d + 1) * 2 powi (bitlen b - 1)"
    by (simp flip: power_int_add)
  also have "\<dots> \<le> 2 powi (?d + 1) * of_int b"
    using bitlen_powi(1) [OF b] by (simp add: mult_left_mono)
  finally have upper: "x < 2 powi (?d + 1)"
    using b by simp
  have "(2::rat) powi (?d - 1) * of_int b < 2 powi (?d - 1) * 2 powi (bitlen b)"
    using bitlen_powi(2) [OF b] by (simp add: mult_strict_left_mono)
  also have "\<dots> = 2 powi (bitlen a - 1)"
    by (simp flip: power_int_add)
  also have "\<dots> \<le> x * of_int b"
    using bitlen_powi(1) [OF a] xb by simp
  finally have lower: "2 powi (?d - 1) < x"
    using b by simp
  show ?thesis
  proof (cases "2 powi ?d \<le> x")
    case True
    with upper q show ?thesis by (simp add: ilog2_def)
  next
    case False
    with lower q show ?thesis by (simp add: ilog2_def)
  qed
qed

lemma binary64_error:
  assumes "0 < x"
  shows "\<bar>binary64 x - x\<bar> \<le> x / 2 ^ 53"
proof -
  let ?e = "ilog2 x - 52"
  let ?u = "(2::rat) powi ?e"
  have u: "0 < ?u" by simp
  from assms have b: "binary64 x = of_int (round_half_even (x / ?u)) * ?u"
    by (simp add: binary64_def Let_def)
  have "binary64 x - x = (of_int (round_half_even (x / ?u)) - x / ?u) * ?u"
    unfolding b using u by (simp add: left_diff_distrib)
  then have "\<bar>binary64 x - x\<bar> = \<bar>of_int (round_half_even (x / ?u)) - x / ?u\<bar> * \<bar>?u\<bar>"
    by (simp only: abs_mult)
  also have "\<dots> = \<bar>of_int (round_half_even (x / ?u)) - x / ?u\<bar> * ?u"
    using u by simp
  also have "\<dots> \<le> 1 / 2 * ?u"
    using round_half_even_near [of "x / ?u"] u by (simp add: mult_right_mono)
  also have "\<dots> = 2 powi (ilog2 x) / 2 ^ 53"
    by (simp add: power_int_diff)
  also have "\<dots> \<le> x / 2 ^ 53"
    using ilog2_bounds [OF assms] by (simp add: divide_right_mono)
  finally show ?thesis .
qed


lemma no_tie_margin:
  fixes n D :: int
  assumes D: "0 < D" and r: "n mod D \<noteq> 0"
  shows "rat_of_int (n div D) + 1 / of_int D \<le> of_int n / of_int D"
    and "rat_of_int n / of_int D \<le> of_int (n div D) + 1 - 1 / of_int D"
proof -
  from D r have lo: "1 \<le> n mod D" and hi: "n mod D \<le> D - 1"
    using pos_mod_sign [OF D, of n] pos_mod_bound [OF D, of n] by linarith+
  have "n = D * (n div D) + n mod D" by simp
  then have "rat_of_int n = of_int D * of_int (n div D) + of_int (n mod D)"
    by (metis of_int_add of_int_mult)
  then have split: "rat_of_int n / of_int D = of_int (n div D) + of_int (n mod D) / of_int D"
    using D by (simp add: add_divide_distrib)
  have "1 / rat_of_int D \<le> of_int (n mod D) / of_int D"
    using lo D by (simp add: divide_right_mono)
  with split show "rat_of_int (n div D) + 1 / of_int D \<le> of_int n / of_int D"
    by simp
  have "rat_of_int (n mod D) / of_int D \<le> of_int (D - 1) / of_int D"
    using hi D by (simp only: of_int_le_iff divide_right_mono of_int_0_le_iff less_imp_le)
  also have "\<dots> = 1 - 1 / of_int D"
    using D by (simp add: diff_divide_distrib)
  finally show "rat_of_int n / of_int D \<le> of_int (n div D) + 1 - 1 / of_int D"
    using split by simp
qed

lemma frac_half: "frac (rat_of_int k + 1 / 2) = 1 / 2"
  unfolding frac_unique_iff by simp

lemma no_tie_remainder:
  fixes p t :: nat
  assumes t: "0 < t" and nt: "frac (100 * rat_of_nat p / of_nat t) \<noteq> 1 / 2"
  shows "(200 * int p + int t) mod (2 * int t) \<noteq> 0"
proof
  let ?n = "200 * int p + int t" and ?D = "2 * int t"
  assume "?n mod ?D = 0"
  then obtain m where m: "?n = ?D * m" by auto
  have "100 * rat_of_nat p / of_nat t + 1 / 2 = of_int ?n / of_int ?D"
    using t by (simp add: field_simps)
  also have "\<dots> = of_int m"
    unfolding m using t by simp
  finally have "100 * rat_of_nat p / of_nat t = of_int (m - 1) + 1 / 2"
    by simp
  then have "frac (100 * rat_of_nat p / of_nat t) = 1 / 2"
    by (simp only: frac_half)
  with nt show False by contradiction
qed


lemma binary64_0 [simp]: "binary64 0 = 0"
  by (simp add: binary64_def)

lemma floor_half: "\<lfloor>(1::rat) / 2\<rfloor> = 0"
  by (rule floor_unique) simp_all

lemma overallRate_zero_present: "overallRate 0 t = 0"
  by (simp add: overallRate_def Math_round_def floor_half)

lemma double_product_near:
  fixes p t :: nat
  assumes p: "0 < p" and le: "p \<le> t"
  shows "\<bar>binary64 (binary64 (rat_of_nat p / of_nat t) * 100) - 100 * rat_of_nat p / of_nat t\<bar>
           \<le> 300 / 2 ^ 53"
proof -
  let ?x = "rat_of_nat p / of_nat t"
  let ?q = "binary64 ?x"
  let ?z = "binary64 (?q * 100)"
  from p le have x: "0 < ?x" "?x \<le> 1" by simp_all
  have e1: "\<bar>?q - ?x\<bar> \<le> ?x / 2 ^ 53"
    by (rule binary64_error [OF x(1)])
  also have "\<dots> \<le> 1 / 2 ^ 53"
    using x(2) by (simp add: divide_right_mono)
  finally have e1': "\<bar>?q - ?x\<bar> \<le> 1 / 2 ^ 53" .
  have "?x / 2 ^ 53 < ?x" using x(1) by simp
  with e1 have q0: "0 < ?q" by linarith
  have "(1::rat) / 2 ^ 53 \<le> 1" by simp
  with e1' x(2) have q2: "?q \<le> 2" by linarith
  have "\<bar>?z - ?q * 100\<bar> \<le> ?q * 100 / 2 ^ 53"
    using q0 by (intro binary64_error) simp
  also have "\<dots> \<le> 200 / 2 ^ 53"
    using q2 by simp
  finally have e2: "\<bar>?z - ?q * 100\<bar> \<le> 200 / 2 ^ 53" .
  have "?z - 100 * ?x = (?z - ?q * 100) + 100 * (?q - ?x)"
    by (simp add: algebra_simps)
  then have "\<bar>?z - 100 * ?x\<bar> \<le> \<bar>?z - ?q * 100\<bar> + \<bar>100 * (?q - ?x)\<bar>"
    by (simp only: abs_triangle_ineq)
  also have "\<bar>100 * (?q - ?x)\<bar> = 100 * \<bar>?q - ?x\<bar>"
    by (simp only: abs_mult abs_numeral)
  finally have "\<bar>?z - 100 * ?x\<bar> \<le> \<bar>?z - ?q * 100\<bar> + 100 * \<bar>?q - ?x\<bar>" .
  also have "\<dots> \<le> 200 / 2 ^ 53 + 100 * (1 / 2 ^ 53)"
    using e1' e2 by (intro add_mono mult_left_mono) simp_all
  finally show ?thesis by simp
qed

lemma overallRate_no_tie:
  fixes p t :: nat
  assumes t: "0 < t" "t < 2 ^ 31" and le: "p \<le> t"
    and nt: "frac (100 * rat_of_nat p / of_nat t) \<noteq> 1 / 2"
  shows "overallRate p t = \<lfloor>100 * rat_of_nat p / of_nat t + 1 / 2\<rfloor>"
proof (cases "p = 0")
  case True
  then show ?thesis by (simp add: overallRate_zero_present floor_half)
next
  case False
  let ?v = "100 * rat_of_nat p / of_nat t"
  let ?z = "binary64 (binary64 (rat_of_nat p / of_nat t) * 100)"
  let ?n = "200 * int p + int t" and ?D = "2 * int t"
  let ?k = "?n div ?D"
  from t have D: "0 < ?D" by simp
  have vn: "?v + 1 / 2 = of_int ?n / of_int ?D"
    using t by (simp add: field_simps)
  have r: "?n mod ?D \<noteq> 0"
    by (rule no_tie_remainder [OF t(1) nt])
  from no_tie_margin [OF D r]
  have lo: "of_int ?k + 1 / of_int ?D \<le> ?v + 1 / 2"
    and hi: "?v + 1 / 2 \<le> of_int ?k + 1 - 1 / of_int ?D"
    by (simp_all only: vn)
  have "rat_of_int ?D < 2 ^ 32"
  proof -
    from t(2) have "?D < 2 ^ 32" by simp
    then have "rat_of_int ?D < of_int (2 ^ 32)" by (simp only: of_int_less_iff)
    then show ?thesis by simp
  qed
  then have "1 / 2 ^ 32 < 1 / rat_of_int ?D"
    using D by (simp add: frac_less2)
  then have margin: "300 / 2 ^ 53 < 1 / rat_of_int ?D" by simp
  from False have "0 < p" by simp
  from double_product_near [OF this le] have near: "\<bar>?z - ?v\<bar> \<le> 300 / 2 ^ 53" .
  have "of_int ?k \<le> ?z + 1 / 2" and "?z + 1 / 2 < of_int ?k + 1"
    using lo hi near margin by linarith+
  then have "\<lfloor>?z + 1 / 2\<rfloor> = ?k"
    by (simp only: floor_unique)
  moreover have "\<lfloor>?v + 1 / 2\<rfloor> = ?k"
    unfolding vn by (simp only: floor_divide_of_int_eq)
  ultimately show ?thesis
    using t(1) by (simp add: overallRate_def Math_round_def)
qed

lemma overallRate_all_present: "0 < t \<Longrightarrow> overallRate t t = 100"
proof -
  assume "0 < t"
  have "binary64 1 = 1" by code_simp
  moreover have "binary64 100 = 100" by code_simp
  moreover have "Math_round 100 = 100" by code_simp
  ultimately show ?thesis
    using \<open>0 < t\<close> by (simp add: overallRate_def)
qed

lemma overallRate_3_of_4: "overallRate 3 4 = 75"
  by code_simp

lemma overallRate_23_of_40: "overallRate 23 40 = 57"
  by code_simp

lemma overallRate_tie:
  fixes p t :: nat
  assumes t: "0 < t" and le: "p \<le> t"
    and tie: "frac (100 * rat_of_nat p / of_nat t) = 1 / 2"
  shows "\<lfloor>100 * rat_of_nat p / of_nat t + 1 / 2\<rfloor> - 1 \<le> overallRate p t \<and>
         overallRate p t \<le> \<lfloor>100 * rat_of_nat p / of_nat t + 1 / 2\<rfloor>"
proof -
  let ?v = "100 * rat_of_nat p / of_nat t"
  let ?z = "binary64 (binary64 (rat_of_nat p / of_nat t) * 100)"
  let ?k = "\<lfloor>?v\<rfloor> + 1"
  have "p \<noteq> 0"
  proof
    assume "p = 0"
    with tie show False by simp
  qed
  then have "0 < p" by simp
  define eps :: rat where "eps = 300 / 2 ^ 53"
  from double_product_near [OF \<open>0 < p\<close> le] have near: "\<bar>?z - ?v\<bar> \<le> eps"
    by (simp only: eps_def)
  have small: "eps < 1 / 2" by (simp add: eps_def)
  from tie have v: "?v + 1 / 2 = of_int ?k"
    by (simp add: frac_def)
  then have k: "\<lfloor>?v + 1 / 2\<rfloor> = ?k"
    by (simp only: floor_of_int)
  have pred: "rat_of_int (?k - 1) = of_int ?k - 1" by simp
  have "of_int (?k - 1) \<le> ?z + 1 / 2" and "?z + 1 / 2 < of_int ?k + 1"
    using near small v unfolding pred by linarith+
  then have "?k - 1 \<le> \<lfloor>?z + 1 / 2\<rfloor>" and "\<lfloor>?z + 1 / 2\<rfloor> \<le> ?k"
    by (simp_all only: le_floor_iff floor_le_iff)
  with k t show ?thesis
    by (simp add: overallRate_def Math_round_def)
qed

text \<open>
  C4, amended. \<^verbatim>\<open>overallAttendanceRate\<close> is 0 when there is no attendance record. With
  records (fewer than \<open>2 ^ 31\<close>, the range of \<^verbatim>\<open>count(*)::int\<close>) it equals
  round-half-up of \<open>100 \<times> presentCount / totalCount\<close> whenever that percentage is not
  exactly halfway between two integers; at an exact half the double-precision product
  can fall just below the half, and the rate is that rounding or one less. It is 100
  when every record is present and 75 for 3 present out of 4.
\<close>

theorem overallAttendanceRate_rounding:
  "(total_count s = 0 \<longrightarrow> overallAttendanceRate (getDashboardStats today s) = 0) \<and>
   (0 < total_count s \<and> total_count s < 2 ^ 31 \<and>
    frac (exact_percentage (present_count s) (total_count s)) \<noteq> 1 / 2 \<longrightarrow>
      overallAttendanceRate (getDashboardStats today s) =
        round_half_up (exact_percentage (present_count s) (total_count s))) \<and>
   (0 < total_count s \<and>
    frac (exact_percentage (present_count s) (total_count s)) = 1 / 2 \<longrightarrow>
      overallAttendanceRate (getDashboardStats today s) \<in>
        {round_half_up (exact_percentage (present_count s) (total_count s)) - 1,
         round_half_up (exact_percentage (present_count s) (total_count s))}) \<and>
   (0 < total_count s \<and> present_count s = total_count s \<longrightarrow>
      overallAttendanceRate (getDashboardStats today s) = 100) \<and>
   (total_count s = 4 \<and> present_count s = 3 \<longrightarrow>
      overallAttendanceRate (getDashboardStats today s) = 75)"
proof -
  have rate: "overallAttendanceRate (getDashboardStats today s) =
      overallRate (present_count s) (total_count s)"
    by (simp add: getDashboardStats_def present_count_def total_count_def)
  have le: "present_count s \<le> total_count s"
    by (simp add: present_count_def total_count_def)
  have zero: "total_count s = 0 \<longrightarrow> overallRate (present_count s) (total_count s) = 0"
    by (simp add: overallRate_def)
  have no_tie: "0 < total_count s \<and> total_count s < 2 ^ 31 \<and>
      frac (exact_percentage (present_count s) (total_count s)) \<noteq> 1 / 2 \<longrightarrow>
      overallRate (present_count s) (total_count s) =
        round_half_up (exact_percentage (present_count s) (total_count s))"
    using overallRate_no_tie [OF _ _ le]
    by (simp add: exact_percentage_def round_half_up_def)
  have tie: "0 < total_count s \<and>
      frac (exact_percentage (present_count s) (total_count s)) = 1 / 2 \<longrightarrow>
      overallRate (present_count s) (total_count s) \<in>
        {round_half_up (exact_percentage (present_count s) (total_count s)) - 1,
         round_half_up (exact_percentage (present_count s) (total_count s))}"
    using overallRate_tie [OF _ le]
    by (simp only: exact_percentage_def round_half_up_def) force
  have full: "0 < total_count s \<and> present_count s = total_count s \<longrightarrow>
      overallRate (present_count s) (total_count s) = 100"
    by (simp add: overallRate_all_present)
  have three: "total_count s = 4 \<and> present_count s = 3 \<longrightarrow>
      overallRate (present_count s) (total_count s) = 75"
    by (simp add: overallRate_3_of_4)
  from zero no_tie tie full three show ?thesis
    by (simp only: rate)
qed

lemma overallRate_1_of_3: "overallRate 1 3 = 33"
  by code_simp

theorem overallAttendanceRate_rounding_witness:
  "0 < total_count example_db \<and> total_count example_db < 2 ^ 31 \<and>
   frac (exact_percentage (present_count example_db) (total_count example_db)) \<noteq> 1 / 2 \<and>
   overallAttendanceRate (getDashboardStats (2024, 1, 10) example_db) = 33 \<and>
   round_half_up (exact_percentage (present_count example_db) (total_count example_db)) = 33"
proof -
  have counts: "total_count example_db = 3" "present_count example_db = 1"
    by (simp_all add: total_count_def present_count_def sample_defs)
  have "exact_percentage 1 3 = of_int 33 + 1 / 3"
    by (simp add: exact_percentage_def)
  then have fr: "frac (exact_percentage 1 3) = 1 / 3"
    by (simp only: frac_unique_iff) simp
  have "overallAttendanceRate (getDashboardStats (2024, 1, 10) example_db) =
      overallRate (present_count example_db) (total_count example_db)"
    by (simp add: getDashboardStats_def present_count_def total_count_def)
  then have "overallAttendanceRate (getDashboardStats (2024, 1, 10) example_db) = 33"
    by (simp only: counts overallRate_1_of_3)
  with overallAttendanceRate_rounding [of example_db "(2024, 1, 10)"] counts fr
  show ?thesis by simp
qed

text \<open>
  C4 as stated fails at an exact half: with 23 of 40 records present the percentage is
  57.5, which rounds half-up to 58; the double product is 57.49999999999999 and the
  dashboard shows 57.
\<close>

lemma counts_rate_db: "present_count rate_db = 23" "total_count rate_db = 40"
  by (simp_all add: present_count_def total_count_def rate_db_def attendance_row_def
      filter_map comp_def)

theorem overallAttendanceRate_rounding_counterexample:
  "overallAttendanceRate (getDashboardStats (2024, 1, 10) rate_db) = 57 \<and>
   round_half_up (exact_percentage (present_count rate_db) (total_count rate_db)) = 58"
proof -
  have "overallAttendanceRate (getDashboardStats (2024, 1, 10) rate_db) = overallRate 23 40"
    using counts_rate_db
    by (simp add: getDashboardStats_def present_count_def total_count_def)
  moreover have "round_half_up (exact_percentage 23 40) = 58"
    by code_simp
  ultimately show ?thesis
    by (simp add: counts_rate_db overallRate_23_of_40)
qed

end
